theory Spec2Isabelle
  imports Main "HOL-Library.Sublist"
begin

section \<open>Text, characters and the Python string helpers the scripts use\<close>

text \<open>
  The scripts \<^verbatim>\<open>replace_sfmc_to_ajo_v3.py\<close> and \<^verbatim>\<open>replace_sfmc_to_ajo_v4.py\<close> rewrite an
  HTML text with Python's \<^verbatim>\<open>re\<close> module. A text is a list of code points; the model
  covers the code points below 256 (\<^typ>\<open>char\<close>), with Python's classes for \<^verbatim>\<open>str\<close> on
  each of them: \<^verbatim>\<open>\s\<close> and \<^verbatim>\<open>str.strip\<close> take 9-13, 28-32, U+0085 and U+00A0; \<^verbatim>\<open>\w\<close> takes
  the underscore and what \<^verbatim>\<open>str.isalnum\<close> takes (the ASCII letters and digits, U+00AA,
  U+00B2, U+00B3, U+00B5, U+00B9, U+00BA, U+00BC-U+00BE, and U+00C0-U+00FF without the two
  arithmetic signs); \<^verbatim>\<open>str.lower\<close> and \<^verbatim>\<open>re.IGNORECASE\<close> fold A-Z and U+00C0-U+00DE
  (without the multiplication sign) to the letter 32 places on. Code points from 256 on
  are not in the type.
\<close>

definition squote :: char where "squote = CHR 0x27"
definition dquote :: char where "dquote = CHR 0x22"
definition backslash :: char where "backslash = CHR 0x5C"
definition newline :: char where "newline = CHR 0x0A"

text \<open>
  The classes are written on the eight bits of a character (lowest bit first), which is
  how they evaluate fastest; \<open>is_space_iff\<close>, \<open>ascii_alpha_iff\<close>, \<open>ascii_digit_iff\<close>,
  \<open>is_word_iff\<close> and \<open>lower_c_eq\<close> below restate them on the listed characters.
\<close>

definition spaces :: string where
  "spaces = [CHR 0x09, CHR 0x0A, CHR 0x0B, CHR 0x0C, CHR 0x0D, CHR 0x1C, CHR 0x1D, CHR 0x1E,
     CHR 0x1F, CHR '' '', CHR 0x85, CHR 0xA0]"

definition uppers :: string where "uppers = ''ABCDEFGHIJKLMNOPQRSTUVWXYZ''"
definition lowers :: string where "lowers = ''abcdefghijklmnopqrstuvwxyz''"
definition digits :: string where "digits = ''0123456789''"

text \<open>The letters and number signs of U+00A0-U+00BF, and the two signs among U+00C0-U+00FF.\<close>
definition latin1_low_words :: string where
  "latin1_low_words = [CHR 0xAA, CHR 0xB2, CHR 0xB3, CHR 0xB5, CHR 0xB9, CHR 0xBA, CHR 0xBC,
     CHR 0xBD, CHR 0xBE]"

definition latin1_low_letters :: string where
  "latin1_low_letters = [CHR 0xAA, CHR 0xB5, CHR 0xBA]"

definition latin1_signs :: string where
  "latin1_signs = [CHR 0xD7, CHR 0xF7]"

text \<open>The capital letters of U+00C0-U+00DE and their small letters, in the same order.\<close>
definition latin1_uppers :: string where
  "latin1_uppers = [CHR 0xC0, CHR 0xC1, CHR 0xC2, CHR 0xC3, CHR 0xC4, CHR 0xC5, CHR 0xC6, CHR 0xC7,
     CHR 0xC8, CHR 0xC9, CHR 0xCA, CHR 0xCB, CHR 0xCC, CHR 0xCD, CHR 0xCE, CHR 0xCF,
     CHR 0xD0, CHR 0xD1, CHR 0xD2, CHR 0xD3, CHR 0xD4, CHR 0xD5, CHR 0xD6, CHR 0xD8,
     CHR 0xD9, CHR 0xDA, CHR 0xDB, CHR 0xDC, CHR 0xDD, CHR 0xDE]"

definition latin1_lowers :: string where
  "latin1_lowers = [CHR 0xE0, CHR 0xE1, CHR 0xE2, CHR 0xE3, CHR 0xE4, CHR 0xE5, CHR 0xE6, CHR 0xE7,
     CHR 0xE8, CHR 0xE9, CHR 0xEA, CHR 0xEB, CHR 0xEC, CHR 0xED, CHR 0xEE, CHR 0xEF,
     CHR 0xF0, CHR 0xF1, CHR 0xF2, CHR 0xF3, CHR 0xF4, CHR 0xF5, CHR 0xF6, CHR 0xF8,
     CHR 0xF9, CHR 0xFA, CHR 0xFB, CHR 0xFC, CHR 0xFD, CHR 0xFE]"

text \<open>The five low bits are a number from 1 to 26: the position of a letter.\<close>
definition letter_bits :: "bool \<Rightarrow> bool \<Rightarrow> bool \<Rightarrow> bool \<Rightarrow> bool \<Rightarrow> bool" where
  "letter_bits b0 b1 b2 b3 b4 =
     ((b4 \<or> b3 \<or> b2 \<or> b1 \<or> b0) \<and> \<not> (b4 \<and> b3 \<and> (b2 \<or> (b1 \<and> b0))))"

text \<open>The five low bits of the two signs U+00D7 and U+00F7.\<close>
definition sign_bits :: "bool \<Rightarrow> bool \<Rightarrow> bool \<Rightarrow> bool \<Rightarrow> bool \<Rightarrow> bool" where
  "sign_bits b0 b1 b2 b3 b4 = (b4 \<and> \<not> b3 \<and> b2 \<and> b1 \<and> b0)"

fun is_space :: "char \<Rightarrow> bool" where
  "is_space (Char b0 b1 b2 b3 b4 b5 b6 b7) =
     (if b7 then \<not> b6 \<and> \<not> b4 \<and> \<not> b3 \<and> \<not> b1 \<and> ((\<not> b5 \<and> b2 \<and> b0) \<or> (b5 \<and> \<not> b2 \<and> \<not> b0))
      else \<not> b6 \<and>
      ((\<not> b5 \<and> \<not> b4 \<and> b3 \<and> ((\<not> b2 \<and> (b1 \<or> b0)) \<or> (b2 \<and> \<not> b1))) \<or>
       (\<not> b5 \<and> b4 \<and> b3 \<and> b2) \<or>
       (b5 \<and> \<not> b4 \<and> \<not> b3 \<and> \<not> b2 \<and> \<not> b1 \<and> \<not> b0)))"

text \<open>\<^verbatim>\<open>[A-Z]\<close>, \<^verbatim>\<open>[A-Za-z]\<close> and \<^verbatim>\<open>[0-9]\<close>\<close>
fun is_upper :: "char \<Rightarrow> bool" where
  "is_upper (Char b0 b1 b2 b3 b4 b5 b6 b7) = (\<not> b7 \<and> b6 \<and> \<not> b5 \<and> letter_bits b0 b1 b2 b3 b4)"

fun ascii_alpha :: "char \<Rightarrow> bool" where
  "ascii_alpha (Char b0 b1 b2 b3 b4 b5 b6 b7) = (\<not> b7 \<and> b6 \<and> letter_bits b0 b1 b2 b3 b4)"

fun ascii_digit :: "char \<Rightarrow> bool" where
  "ascii_digit (Char b0 b1 b2 b3 b4 b5 b6 b7) =
     (\<not> b7 \<and> \<not> b6 \<and> b5 \<and> b4 \<and> (\<not> b3 \<or> (\<not> b2 \<and> \<not> b1)))"

text \<open>\<^verbatim>\<open>str.isalpha\<close>\<close>
fun is_alpha :: "char \<Rightarrow> bool" where
  "is_alpha (Char b0 b1 b2 b3 b4 b5 b6 b7) =
     (if b7
      then (if b6 then \<not> sign_bits b0 b1 b2 b3 b4
            else Char b0 b1 b2 b3 b4 b5 b6 b7 \<in> set latin1_low_letters)
      else b6 \<and> letter_bits b0 b1 b2 b3 b4)"

text \<open>\<^verbatim>\<open>\w\<close>\<close>
fun is_word :: "char \<Rightarrow> bool" where
  "is_word (Char b0 b1 b2 b3 b4 b5 b6 b7) =
     (if b7
      then (if b6 then \<not> sign_bits b0 b1 b2 b3 b4
            else Char b0 b1 b2 b3 b4 b5 b6 b7 \<in> set latin1_low_words)
      else (b6 \<and> letter_bits b0 b1 b2 b3 b4) \<or>
           (\<not> b6 \<and> b5 \<and> b4 \<and> (\<not> b3 \<or> (\<not> b2 \<and> \<not> b1))) \<or>
           (b6 \<and> \<not> b5 \<and> b4 \<and> b3 \<and> b2 \<and> b1 \<and> b0))"

text \<open>\<^verbatim>\<open>str.lower\<close> on one character\<close>
fun lower_c :: "char \<Rightarrow> char" where
  "lower_c (Char b0 b1 b2 b3 b4 b5 b6 b7) =
     (if b6 \<and> \<not> b5 \<and>
         (if b7 then \<not> sign_bits b0 b1 b2 b3 b4 \<and> \<not> (b4 \<and> b3 \<and> b2 \<and> b1 \<and> b0)
          else letter_bits b0 b1 b2 b3 b4)
      then Char b0 b1 b2 b3 b4 True b6 b7 else Char b0 b1 b2 b3 b4 b5 b6 b7)"

text \<open>\<^verbatim>\<open>s.lower()\<close>\<close>
definition lower :: "string \<Rightarrow> string" where
  "lower s = map lower_c s"

text \<open>\<^verbatim>\<open>s.strip()\<close>\<close>
definition strip :: "string \<Rightarrow> string" where
  "strip s = rev (dropWhile is_space (rev (dropWhile is_space s)))"

text \<open>\<^verbatim>\<open>s.startswith(p)\<close>\<close>
definition startswith :: "string \<Rightarrow> string \<Rightarrow> bool" where
  "startswith s p = (take (length p) s = p)"

text \<open>\<^verbatim>\<open>x in s\<close> for strings: \<open>x\<close> occurs in \<open>s\<close> as a contiguous piece.\<close>
fun contains_str :: "string \<Rightarrow> string \<Rightarrow> bool" where
  "contains_str x [] = (x = [])"
| "contains_str x (c # cs) = (startswith (c # cs) x \<or> contains_str x cs)"

text \<open>
  \<^verbatim>\<open>s.replace(old, new)\<close>: the occurrences of \<open>old\<close> are replaced from left to right,
  without overlap. For an empty \<open>old\<close> Python puts \<open>new\<close> before every character and at
  the end.
\<close>
function str_replace :: "string \<Rightarrow> string \<Rightarrow> string \<Rightarrow> string" where
  "str_replace old new s =
     (if old = [] then new @ concat (map (\<lambda>c. c # new) s)
      else if startswith s old then new @ str_replace old new (drop (length old) s)
      else (case s of [] \<Rightarrow> [] | c # cs \<Rightarrow> c # str_replace old new cs))"
  by pat_completeness auto
termination
proof (relation "measure (\<lambda>(old, new, s). length s)", goal_cases)
  case (2 old new s)
  then have "s \<noteq> []" by (auto simp: startswith_def)
  with 2 show ?case by simp
qed auto

section \<open>The fragment of Python's regular expressions the scripts use\<close>

text \<open>
  Every pattern of the two scripts is built from: single characters and character
  classes, concatenation, alternation (also \<^verbatim>\<open>X?\<close>, which prefers \<open>X\<close>), greedy and lazy
  repetition of a character class (\<^verbatim>\<open>\s*\<close>, \<^verbatim>\<open>\w+\<close>, \<^verbatim>\<open>.*?\<close>, \<^verbatim>\<open>[^%]+\<close>, ...), capture
  groups, one back-reference (\<^verbatim>\<open>\2\<close>), \<^verbatim>\<open>^\<close>, \<^verbatim>\<open>$\<close> and \<^verbatim>\<open>\b\<close>. Flags are part of the
  term: under \<^verbatim>\<open>re.IGNORECASE\<close> a literal is the class \<open>ci c\<close>, and every \<^verbatim>\<open>.\<close> of the
  scripts is compiled with \<^verbatim>\<open>re.DOTALL\<close>, so it is the class \<open>any_char\<close>.
\<close>

datatype rx =
    Eps
  | Ch "char \<Rightarrow> bool"
  | Seq rx rx
  | Alt rx rx
  | Many bool "char \<Rightarrow> bool"
  | Grp nat rx
  | Bref nat
  | Bos
  | Eos
  | Wordb

text \<open>
  A matcher state: the character before the current position (\<open>None\<close> at the start of
  the text), the text still to read, and the groups captured so far.
\<close>
record mstate =
  prev :: "char option"
  rest :: string
  caps :: "nat \<rightharpoonup> string"

definition any_char :: "char \<Rightarrow> bool" where "any_char c = True"
definition ch :: "char \<Rightarrow> char \<Rightarrow> bool" where "ch c x = (x = c)"
definition ci :: "char \<Rightarrow> char \<Rightarrow> bool" where "ci c x = (lower_c x = lower_c c)"
definition none_of :: "string \<Rightarrow> char \<Rightarrow> bool" where "none_of cs x = (x \<notin> set cs)"

text \<open>
  The positions reached by reading 0, 1, 2, ... characters of class \<open>P\<close>, shortest
  first: the order in which a lazy repetition tries them. A greedy one tries them in
  the reverse order.
\<close>
fun runs :: "(char \<Rightarrow> bool) \<Rightarrow> char option \<Rightarrow> string \<Rightarrow> (char option \<times> string) list" where
  "runs P p [] = [(p, [])]"
| "runs P p (c # cs) = (p, c # cs) # (if P c then runs P (Some c) cs else [])"

definition is_word_opt :: "char option \<Rightarrow> bool" where
  "is_word_opt p = (case p of None \<Rightarrow> False | Some c \<Rightarrow> is_word c)"

text \<open>
  \<open>ms r s\<close> lists every way \<open>r\<close> can match at state \<open>s\<close>, in the order in which
  Python's backtracking matcher tries them; the match Python reports is the first one.
  \<^verbatim>\<open>$\<close> (without \<^verbatim>\<open>re.MULTILINE\<close>) holds at the end of the text and before a final newline.
\<close>
fun ms :: "rx \<Rightarrow> mstate \<Rightarrow> mstate list" where
  "ms Eps s = [s]"
| "ms (Ch P) s =
     (case rest s of [] \<Rightarrow> []
      | c # cs \<Rightarrow> if P c then [s\<lparr>prev := Some c, rest := cs\<rparr>] else [])"
| "ms (Seq a b) s = concat (map (ms b) (ms a s))"
| "ms (Alt a b) s = ms a s @ ms b s"
| "ms (Many greedy P) s =
     map (\<lambda>(p, r). s\<lparr>prev := p, rest := r\<rparr>)
       ((if greedy then rev else id) (runs P (prev s) (rest s)))"
| "ms (Grp n a) s =
     map (\<lambda>t. t\<lparr>caps := (caps t)(n \<mapsto> take (length (rest s) - length (rest t)) (rest s))\<rparr>)
       (ms a s)"
| "ms (Bref n) s =
     (case caps s n of None \<Rightarrow> []
      | Some w \<Rightarrow>
          if w = [] then [s]
          else if take (length w) (rest s) = w
          then [s\<lparr>prev := Some (last w), rest := drop (length w) (rest s)\<rparr>] else [])"
| "ms Bos s = (if prev s = None then [s] else [])"
| "ms Eos s = (if rest s = [] \<or> rest s = [newline] then [s] else [])"
| "ms Wordb s =
     (if is_word_opt (prev s) \<noteq> is_word_opt (case rest s of [] \<Rightarrow> None | c # _ \<Rightarrow> Some c)
      then [s] else [])"

text \<open>Pattern-building shorthands.\<close>

definition seqs :: "rx list \<Rightarrow> rx" where
  "seqs rs = foldr Seq rs Eps"

definition lit :: "string \<Rightarrow> rx" where
  "lit w = seqs (map (\<lambda>c. Ch (ch c)) w)"

definition lit_i :: "string \<Rightarrow> rx" where
  "lit_i w = seqs (map (\<lambda>c. Ch (ci c)) w)"

definition star :: "(char \<Rightarrow> bool) \<Rightarrow> rx" where "star P = Many True P"
definition plus :: "(char \<Rightarrow> bool) \<Rightarrow> rx" where "plus P = Seq (Ch P) (Many True P)"
definition star_lazy :: "(char \<Rightarrow> bool) \<Rightarrow> rx" where "star_lazy P = Many False P"
definition plus_lazy :: "(char \<Rightarrow> bool) \<Rightarrow> rx" where "plus_lazy P = Seq (Ch P) (Many False P)"
definition opt :: "rx \<Rightarrow> rx" where "opt r = Alt r Eps"

text \<open>
  Two syntactic classes of patterns, used in the proofs: patterns without a group, and
  patterns made of characters, classes, concatenation, alternation and repetition only.
\<close>
fun nogrp :: "rx \<Rightarrow> bool" where
  "nogrp (Seq a b) = (nogrp a \<and> nogrp b)"
| "nogrp (Alt a b) = (nogrp a \<and> nogrp b)"
| "nogrp (Grp n a) = False"
| "nogrp r = True"


text \<open>
  One match: where it starts, the text it covers (\<^verbatim>\<open>m.group(0)\<close>) and its groups. A
  scan of a text is the sequence of its non-overlapping matches, found from left to
  right, with the characters between them.
\<close>
record hit =
  h_start :: nat
  h_whole :: string
  h_caps :: "nat \<rightharpoonup> string"

datatype seg = Skip char | Hit hit


text \<open>\<^verbatim>\<open>m.group(n) or ""\<close>; the same as \<^verbatim>\<open>m.group(n)\<close> for a group that took part.\<close>
definition grp :: "hit \<Rightarrow> nat \<Rightarrow> string" where
  "grp h n = (case h_caps h n of None \<Rightarrow> [] | Some w \<Rightarrow> w)"

definition start_state :: "char option \<Rightarrow> string \<Rightarrow> mstate" where
  "start_state p s = \<lparr>prev = p, rest = s, caps = Map.empty\<rparr>"

definition mk_hit :: "nat \<Rightarrow> string \<Rightarrow> mstate \<Rightarrow> hit" where
  "mk_hit pos s m =
     \<lparr>h_start = pos, h_whole = take (length s - length (rest m)) s, h_caps = caps m\<rparr>"

text \<open>
  \<^verbatim>\<open>pattern.finditer(text)\<close>. After a match that read something the scan goes on
  behind it. After an empty match Python looks at the same position for a match that
  reads something, and moves one character on if there is none (no pattern of the
  scripts can match the empty text).
\<close>
function scan :: "rx \<Rightarrow> nat \<Rightarrow> char option \<Rightarrow> string \<Rightarrow> seg list" where
  "scan r pos p s =
     (case ms r (start_state p s) of
        [] \<Rightarrow> (case s of [] \<Rightarrow> [] | c # cs \<Rightarrow> Skip c # scan r (Suc pos) (Some c) cs)
      | m # others \<Rightarrow>
          if length (rest m) < length s
          then Hit (mk_hit pos s m) # scan r (pos + (length s - length (rest m))) (prev m) (rest m)
          else Hit (mk_hit pos s m) #
            (case filter (\<lambda>t. length (rest t) < length s) others of
               t # _ \<Rightarrow> Hit (mk_hit pos s t) #
                  scan r (pos + (length s - length (rest t))) (prev t) (rest t)
             | [] \<Rightarrow> (case s of [] \<Rightarrow> [] | c # cs \<Rightarrow> Skip c # scan r (Suc pos) (Some c) cs)))"
  by pat_completeness auto
termination
proof (relation "measure (\<lambda>(r, pos, p, s). length s)", goal_cases)
  case (5 r pos p s m others t ts)
  then have "t \<in> set (filter (\<lambda>t. length (rest t) < length s) others)" by simp
  then show ?case by simp
qed auto

text \<open>\<^verbatim>\<open>pattern.search(text)\<close>: the first match, if any.\<close>
fun search_from :: "rx \<Rightarrow> nat \<Rightarrow> char option \<Rightarrow> string \<Rightarrow> hit option" where
  "search_from r pos p [] =
     (case ms r (start_state p []) of [] \<Rightarrow> None | m # _ \<Rightarrow> Some (mk_hit pos [] m))"
| "search_from r pos p (c # cs) =
     (case ms r (start_state p (c # cs)) of
        [] \<Rightarrow> search_from r (Suc pos) (Some c) cs
      | m # _ \<Rightarrow> Some (mk_hit pos (c # cs) m))"

definition search :: "rx \<Rightarrow> string \<Rightarrow> hit option" where
  "search r text = search_from r 0 None text"

definition finditer :: "rx \<Rightarrow> string \<Rightarrow> seg list" where
  "finditer r text = scan r 0 None text"

definition hits :: "seg list \<Rightarrow> hit list" where
  "hits segs = concat (map (\<lambda>g. case g of Skip c \<Rightarrow> [] | Hit h \<Rightarrow> [h]) segs)"

text \<open>\<^verbatim>\<open>pattern.findall(text)\<close> for a pattern with one group, and for one with none.\<close>
definition findall1 :: "rx \<Rightarrow> string \<Rightarrow> string list" where
  "findall1 r text = map (\<lambda>h. grp h 1) (hits (finditer r text))"

definition findall0 :: "rx \<Rightarrow> string \<Rightarrow> string list" where
  "findall0 r text = map h_whole (hits (finditer r text))"

text \<open>\<^verbatim>\<open>pattern.sub(repl, text)\<close> with a function \<open>repl\<close>.\<close>
definition re_sub :: "rx \<Rightarrow> (hit \<Rightarrow> string) \<Rightarrow> string \<Rightarrow> string" where
  "re_sub r f text =
     concat (map (\<lambda>g. case g of Skip c \<Rightarrow> [c] | Hit h \<Rightarrow> f h) (finditer r text))"


section \<open>The Condition Translator (\<^verbatim>\<open>replace_sfmc_to_ajo_v4.py\<close>)\<close>

text \<open>
  The variable mapping is a dictionary from lower-case names to expressions, the covered
  set a set of lower-case names, the warning list a list of names as written.
\<close>
type_synonym var_map = "string \<rightharpoonup> string"

text \<open>\<^verbatim>\<open>var_expr.get(var_name.lower(), var_name)\<close>\<close>
definition resolve_expr :: "string \<Rightarrow> var_map \<Rightarrow> string" where
  "resolve_expr var_name var_expr =
     (case var_expr (lower var_name) of None \<Rightarrow> var_name | Some e \<Rightarrow> e)"

definition one_of :: "string \<Rightarrow> char \<Rightarrow> bool" where "one_of cs x = (x \<in> set cs)"

definition quotes :: string where "quotes = [squote, dquote]"

text \<open>\<^verbatim>\<open>@(\w+)\<close>, with \<^verbatim>\<open>re.IGNORECASE\<close>\<close>
definition re_var :: rx where
  "re_var = seqs [lit_i ''@'', Grp 1 (plus is_word)]"

text \<open>\<^verbatim>\<open>not\s*empty\s*\(\s*@(\w+)\s*\)\<close>, with \<^verbatim>\<open>re.IGNORECASE\<close>\<close>
definition re_not_empty :: rx where
  "re_not_empty = seqs [lit_i ''not'', star is_space, lit_i ''empty'', star is_space, lit_i ''('',
     star is_space, lit_i ''@'', Grp 1 (plus is_word), star is_space, lit_i '')'']"

text \<open>\<^verbatim>\<open>empty\s*\(\s*@(\w+)\s*\)\<close>, with \<^verbatim>\<open>re.IGNORECASE\<close>\<close>
definition re_empty :: rx where
  "re_empty = seqs [lit_i ''empty'', star is_space, lit_i ''('',
     star is_space, lit_i ''@'', Grp 1 (plus is_word), star is_space, lit_i '')'']"

text \<open>\<^verbatim>\<open>contains\s*\(\s*@(\w+)\s*,\s*[\'"]([^\'"]+)[\'"]\s*\)\<close>, with \<^verbatim>\<open>re.IGNORECASE\<close>\<close>
definition re_contains :: rx where
  "re_contains = seqs [lit_i ''contains'', star is_space, lit_i ''('', star is_space, lit_i ''@'',
     Grp 1 (plus is_word), star is_space, lit_i '','', star is_space, Ch (one_of quotes),
     Grp 2 (plus (none_of quotes)), Ch (one_of quotes), star is_space, lit_i '')'']"

text \<open>\<^verbatim>\<open>@(\w+)\s*(==|!=)\s*[\'"]([^\'"]+)[\'"]\<close>, with \<^verbatim>\<open>re.IGNORECASE\<close>\<close>
definition re_cmp :: rx where
  "re_cmp = seqs [lit_i ''@'', Grp 1 (plus is_word), star is_space,
     Grp 2 (Alt (lit_i ''=='') (lit_i ''!='')), star is_space, Ch (one_of quotes),
     Grp 3 (plus (none_of quotes)), Ch (one_of quotes)]"

text \<open>\<^verbatim>\<open>^\s*@(\w+)\s*$\<close>, with \<^verbatim>\<open>re.IGNORECASE\<close>\<close>
definition re_truthy :: rx where
  "re_truthy = seqs [Bos, star is_space, lit_i ''@'', Grp 1 (plus is_word), star is_space, Eos]"

definition allow_list :: "string set" where
  "allow_list = {''email'', ''firstname'', ''lastname'', ''country''}"

text \<open>
  The loop that opens the translator: every variable the condition mentions, not yet
  covered and not on the allow list, is appended to the warning list.
\<close>
definition note_vars :: "string \<Rightarrow> string list \<Rightarrow> string set \<Rightarrow> string list" where
  "note_vars cond_l warnings covered_vars =
     warnings @ filter (\<lambda>v. lower v \<notin> covered_vars \<and> lower v \<notin> allow_list) (findall1 re_var cond_l)"

text \<open>The inner function \<^verbatim>\<open>learn_expr\<close>; it returns the covered set it may have extended.\<close>
definition learn_expr :: "string \<Rightarrow> var_map \<Rightarrow> string set \<Rightarrow> string \<times> string set" where
  "learn_expr var_name var_expr covered_vars =
     (let expr = resolve_expr var_name var_expr
      in (expr, if expr \<noteq> var_name then insert (lower var_name) covered_vars else covered_vars))"

text \<open>
  \<^verbatim>\<open>translate_condition_to_liquid(cond, warnings, var_expr, covered_vars)\<close>. The result
  is the returned text with the warning list and the covered set as the call leaves
  them.
\<close>
function translate_condition_to_liquid ::
  "string \<Rightarrow> string list \<Rightarrow> var_map \<Rightarrow> string set \<Rightarrow> string \<times> string list \<times> string set" where
  "translate_condition_to_liquid cond warnings var_expr covered_vars =
     (let cond_l = strip cond;
          warnings1 = note_vars cond_l warnings covered_vars
      in case search re_not_empty cond_l of
        Some m \<Rightarrow>
          (case learn_expr (grp m 1) var_expr covered_vars of
             (e, cov) \<Rightarrow> (''{% if length('' @ e @ '') > 0 %}'', warnings1, cov))
      | None \<Rightarrow>
      (case search re_empty cond_l of
        Some m \<Rightarrow>
          (case learn_expr (grp m 1) var_expr covered_vars of
             (e, cov) \<Rightarrow> (''{% if length('' @ e @ '') == 0 %}'', warnings1, cov))
      | None \<Rightarrow>
      (case search re_contains cond_l of
        Some m \<Rightarrow>
          (case learn_expr (grp m 1) var_expr covered_vars of
             (e, cov) \<Rightarrow>
               (''{% if contains('' @ e @ '', '' @ [squote] @ grp m 2 @ [squote] @ '') %}'',
                warnings1, cov))
      | None \<Rightarrow>
      (case search re_cmp cond_l of
        Some m \<Rightarrow>
          (case learn_expr (grp m 1) var_expr covered_vars of
             (e, cov) \<Rightarrow>
               (''{% if '' @ e @ '' '' @ (if grp m 2 = ''=='' then ''=='' else ''!='') @ '' ''
                  @ [squote] @ grp m 3 @ [squote] @ '' %}'',
                warnings1, cov))
      | None \<Rightarrow>
      (case search re_truthy cond_l of
        Some m \<Rightarrow>
          (case learn_expr (grp m 1) var_expr covered_vars of
             (e, cov) \<Rightarrow> (''{% if '' @ e @ '' %}'', warnings1, cov))
      | None \<Rightarrow>
          if startswith (lower cond_l) ''elseif ''
          then (case translate_condition_to_liquid (strip (drop 7 cond_l)) warnings1 var_expr
                       covered_vars of
                  (trans_txt, warnings2, cov) \<Rightarrow>
                    (str_replace ''{% if'' ''{% elseif'' trans_txt, warnings2, cov))
          else (''<!-- Untranslated condition: '' @ cond @ '' -->'', warnings1, covered_vars))))))"
  by pat_completeness auto
termination
proof (relation "measure (\<lambda>(cond, warnings, var_expr, covered_vars). length cond)", goal_cases)
  case (2 cond warnings var_expr covered_vars x xa)
  have le: "length (strip t) \<le> length t" for t
    unfolding strip_def
    by (metis length_dropWhile_le length_rev le_trans)
  from 2 have "startswith (lower (strip cond)) ''elseif ''" by simp
  then have "length (lower (strip cond)) \<ge> 7"
    by (auto simp: startswith_def dest!: arg_cong [where f = length])
  then have "7 \<le> length (strip cond)" by (simp add: lower_def)
  moreover have "length (strip (drop 7 (strip cond))) \<le> length (strip cond) - 7"
    using le [of "drop 7 (strip cond)"] by simp
  ultimately have "length (strip (drop 7 (strip cond))) < length cond"
    using le [of cond] by linarith
  with 2 show ?case by simp
qed simp


section \<open>The Condition Translator of the earlier script (\<^verbatim>\<open>replace_sfmc_to_ajo_v3.py\<close>)\<close>

text \<open>
  The earlier script has its own \<^verbatim>\<open>resolve_expr\<close> and \<^verbatim>\<open>translate_condition_to_liquid\<close>,
  transcribed here from its lines 88-159 under the names \<open>..._v3\<close>.
\<close>

text \<open>\<^verbatim>\<open>var_expr.get(var_name.lower(), var_name)\<close>\<close>
definition resolve_expr_v3 :: "string \<Rightarrow> var_map \<Rightarrow> string" where
  "resolve_expr_v3 var_name var_expr =
     (case var_expr (lower var_name) of None \<Rightarrow> var_name | Some e \<Rightarrow> e)"

text \<open>\<^verbatim>\<open>@(\w+)\<close>, with \<^verbatim>\<open>re.IGNORECASE\<close>\<close>
definition re_var_v3 :: rx where
  "re_var_v3 = seqs [lit_i ''@'', Grp 1 (plus is_word)]"

text \<open>\<^verbatim>\<open>not\s*empty\s*\(\s*@(\w+)\s*\)\<close>, with \<^verbatim>\<open>re.IGNORECASE\<close>\<close>
definition re_not_empty_v3 :: rx where
  "re_not_empty_v3 = seqs [lit_i ''not'', star is_space, lit_i ''empty'', star is_space, lit_i ''('',
     star is_space, lit_i ''@'', Grp 1 (plus is_word), star is_space, lit_i '')'']"

text \<open>\<^verbatim>\<open>empty\s*\(\s*@(\w+)\s*\)\<close>, with \<^verbatim>\<open>re.IGNORECASE\<close>\<close>
definition re_empty_v3 :: rx where
  "re_empty_v3 = seqs [lit_i ''empty'', star is_space, lit_i ''('',
     star is_space, lit_i ''@'', Grp 1 (plus is_word), star is_space, lit_i '')'']"

text \<open>\<^verbatim>\<open>contains\s*\(\s*@(\w+)\s*,\s*[\'"]([^\'"]+)[\'"]\s*\)\<close>, with \<^verbatim>\<open>re.IGNORECASE\<close>\<close>
definition re_contains_v3 :: rx where
  "re_contains_v3 = seqs [lit_i ''contains'', star is_space, lit_i ''('', star is_space, lit_i ''@'',
     Grp 1 (plus is_word), star is_space, lit_i '','', star is_space, Ch (one_of quotes),
     Grp 2 (plus (none_of quotes)), Ch (one_of quotes), star is_space, lit_i '')'']"

text \<open>\<^verbatim>\<open>@(\w+)\s*(==|!=)\s*[\'"]([^\'"]+)[\'"]\<close>, with \<^verbatim>\<open>re.IGNORECASE\<close>\<close>
definition re_cmp_v3 :: rx where
  "re_cmp_v3 = seqs [lit_i ''@'', Grp 1 (plus is_word), star is_space,
     Grp 2 (Alt (lit_i ''=='') (lit_i ''!='')), star is_space, Ch (one_of quotes),
     Grp 3 (plus (none_of quotes)), Ch (one_of quotes)]"

text \<open>\<^verbatim>\<open>^\s*@(\w+)\s*$\<close>, with \<^verbatim>\<open>re.IGNORECASE\<close>\<close>
definition re_truthy_v3 :: rx where
  "re_truthy_v3 = seqs [Bos, star is_space, lit_i ''@'', Grp 1 (plus is_word), star is_space, Eos]"

definition allow_list_v3 :: "string set" where
  "allow_list_v3 = {''email'', ''firstname'', ''lastname'', ''country''}"

text \<open>
  The loop that opens the translator: every variable the condition mentions, not yet
  covered and not on the allow list, is appended to the warning list.
\<close>
definition note_vars_v3 :: "string \<Rightarrow> string list \<Rightarrow> string set \<Rightarrow> string list" where
  "note_vars_v3 cond_l warnings covered_vars =
     warnings @ filter (\<lambda>v. lower v \<notin> covered_vars \<and> lower v \<notin> allow_list_v3) (findall1 re_var_v3 cond_l)"

text \<open>The inner function \<^verbatim>\<open>learn_expr\<close>; it returns the covered set it may have extended.\<close>
definition learn_expr_v3 :: "string \<Rightarrow> var_map \<Rightarrow> string set \<Rightarrow> string \<times> string set" where
  "learn_expr_v3 var_name var_expr covered_vars =
     (let expr = resolve_expr_v3 var_name var_expr
      in (expr, if expr \<noteq> var_name then insert (lower var_name) covered_vars else covered_vars))"

text \<open>
  \<^verbatim>\<open>translate_condition_to_liquid(cond, warnings, var_expr, covered_vars)\<close>. The result
  is the returned text with the warning list and the covered set as the call leaves
  them.
\<close>
function translate_condition_to_liquid_v3 ::
  "string \<Rightarrow> string list \<Rightarrow> var_map \<Rightarrow> string set \<Rightarrow> string \<times> string list \<times> string set" where
  "translate_condition_to_liquid_v3 cond warnings var_expr covered_vars =
     (let cond_l = strip cond;
          warnings1 = note_vars_v3 cond_l warnings covered_vars
      in case search re_not_empty_v3 cond_l of
        Some m \<Rightarrow>
          (case learn_expr_v3 (grp m 1) var_expr covered_vars of
             (e, cov) \<Rightarrow> (''{% if length('' @ e @ '') > 0 %}'', warnings1, cov))
      | None \<Rightarrow>
      (case search re_empty_v3 cond_l of
        Some m \<Rightarrow>
          (case learn_expr_v3 (grp m 1) var_expr covered_vars of
             (e, cov) \<Rightarrow> (''{% if length('' @ e @ '') == 0 %}'', warnings1, cov))
      | None \<Rightarrow>
      (case search re_contains_v3 cond_l of
        Some m \<Rightarrow>
          (case learn_expr_v3 (grp m 1) var_expr covered_vars of
             (e, cov) \<Rightarrow>
               (''{% if contains('' @ e @ '', '' @ [squote] @ grp m 2 @ [squote] @ '') %}'',
                warnings1, cov))
      | None \<Rightarrow>
      (case search re_cmp_v3 cond_l of
        Some m \<Rightarrow>
          (case learn_expr_v3 (grp m 1) var_expr covered_vars of
             (e, cov) \<Rightarrow>
               (''{% if '' @ e @ '' '' @ (if grp m 2 = ''=='' then ''=='' else ''!='') @ '' ''
                  @ [squote] @ grp m 3 @ [squote] @ '' %}'',
                warnings1, cov))
      | None \<Rightarrow>
      (case search re_truthy_v3 cond_l of
        Some m \<Rightarrow>
          (case learn_expr_v3 (grp m 1) var_expr covered_vars of
             (e, cov) \<Rightarrow> (''{% if '' @ e @ '' %}'', warnings1, cov))
      | None \<Rightarrow>
          if startswith (lower cond_l) ''elseif ''
          then (case translate_condition_to_liquid_v3 (strip (drop 7 cond_l)) warnings1 var_expr
                       covered_vars of
                  (trans_txt, warnings2, cov) \<Rightarrow>
                    (str_replace ''{% if'' ''{% elseif'' trans_txt, warnings2, cov))
          else (''<!-- Untranslated condition: '' @ cond @ '' -->'', warnings1, covered_vars))))))"
  by pat_completeness auto
termination
proof (relation "measure (\<lambda>(cond, warnings, var_expr, covered_vars). length cond)", goal_cases)
  case (2 cond warnings var_expr covered_vars x xa)
  have le: "length (strip t) \<le> length t" for t
    unfolding strip_def
    by (metis length_dropWhile_le length_rev le_trans)
  from 2 have "startswith (lower (strip cond)) ''elseif ''" by simp
  then have "length (lower (strip cond)) \<ge> 7"
    by (auto simp: startswith_def dest!: arg_cong [where f = length])
  then have "7 \<le> length (strip cond)" by (simp add: lower_def)
  moreover have "length (strip (drop 7 (strip cond))) \<le> length (strip cond) - 7"
    using le [of "drop 7 (strip cond)"] by simp
  ultimately have "length (strip (drop 7 (strip cond))) < length cond"
    using le [of cond] by linarith
  with 2 show ?case by simp
qed simp




section \<open>Inference of the variable mapping\<close>

text \<open>A row of the mapping sheet, as the pipeline hands it over: two strings.\<close>
record mrow =
  SFMC :: string
  AJO :: string

definition ident_start :: "char \<Rightarrow> bool" where
  "ident_start c = (ascii_alpha c \<or> c = CHR ''_'')"

definition path_char :: "char \<Rightarrow> bool" where
  "path_char c = (ascii_alpha c \<or> ascii_digit c \<or> c \<in> set ''_.[]'')"

text \<open>\<^verbatim>\<open>{%\s*let\s+([A-Za-z_]\w*)\s*=\s*\(?\s*(.*?)\s*\)?\s*%}\<close>, with \<^verbatim>\<open>re.IGNORECASE | re.DOTALL\<close>\<close>
definition let_re :: rx where
  "let_re = seqs [lit_i ''{%'', star is_space, lit_i ''let'', plus is_space,
     Grp 1 (Seq (Ch ident_start) (star is_word)), star is_space, lit_i ''='', star is_space,
     opt (lit_i ''(''), star is_space, Grp 2 (star_lazy any_char), star is_space,
     opt (lit_i '')''), star is_space, lit_i ''%}'']"

text \<open>\<^verbatim>\<open>{{\s*(.*?)\s*}}\<close>, with \<^verbatim>\<open>re.DOTALL\<close>\<close>
definition print_re :: rx where
  "print_re = seqs [lit ''{{'', star is_space, Grp 1 (star_lazy any_char), star is_space, lit ''}}'']"

text \<open>\<^verbatim>\<open>\b(?:profile|context)\.[A-Za-z0-9_\.\[\]]+\<close>, with \<^verbatim>\<open>re.IGNORECASE\<close>\<close>
definition path_re :: rx where
  "path_re = seqs [Wordb, Alt (lit_i ''profile'') (lit_i ''context''), lit_i ''.'', plus path_char]"

text \<open>\<^verbatim>\<open>@(\w+)\<close>, without flags\<close>
definition re_sfmc_var :: rx where
  "re_sfmc_var = seqs [lit ''@'', Grp 1 (plus is_word)]"

definition RESERVED_SKIP :: "string set" where
  "RESERVED_SKIP = {''the''}"

text \<open>The expression a row's AJO cell yields: binding name, print expression or path.\<close>
definition row_expr :: "string \<Rightarrow> string option" where
  "row_expr ajo =
     (case search let_re ajo of
        Some m_let \<Rightarrow> Some (strip (grp m_let 1))
      | None \<Rightarrow>
          (case search print_re ajo of
             Some m_print \<Rightarrow> Some (strip (grp m_print 1))
           | None \<Rightarrow>
               (case search path_re ajo of
                  Some m_path \<Rightarrow> Some (strip (h_whole m_path))
                | None \<Rightarrow> None)))"

text \<open>\<^verbatim>\<open>any(x in ajo for x in ["profile.", "context.", "fragment", "{{", "{%"])\<close>\<close>
definition hints_destination :: "string \<Rightarrow> bool" where
  "hints_destination ajo =
     (\<exists>x \<in> set [''profile.'', ''context.'', ''fragment'', ''{{'', ''{%'']. contains_str x ajo)"

text \<open>Python's truth value of \<^verbatim>\<open>expr\<close>: neither \<^verbatim>\<open>None\<close> nor the empty string.\<close>
definition truthy :: "string option \<Rightarrow> bool" where
  "truthy e = (case e of None \<Rightarrow> False | Some w \<Rightarrow> w \<noteq> [])"

text \<open>The inner loop \<^verbatim>\<open>for var in vars_in_sfmc\<close> of the later script.\<close>
fun learn_vars ::
  "string option \<Rightarrow> bool \<Rightarrow> string \<Rightarrow> string list \<Rightarrow> var_map \<times> string set \<Rightarrow> var_map \<times> string set" where
  "learn_vars expr single_var ajo [] acc = acc"
| "learn_vars expr single_var ajo (var # vars) (var_expr, covered) =
     (let vlow = lower var in
      if vlow \<in> RESERVED_SKIP then learn_vars expr single_var ajo vars (var_expr, covered)
      else if truthy expr \<and> single_var
      then learn_vars expr single_var ajo vars (var_expr(vlow \<mapsto> the expr), insert vlow covered)
      else if hints_destination ajo
      then learn_vars expr single_var ajo vars (var_expr, insert vlow covered)
      else learn_vars expr single_var ajo vars (var_expr, covered))"

text \<open>One turn of the loop \<^verbatim>\<open>for _, row in df.iterrows()\<close> of the later script.\<close>
definition extract_row :: "var_map \<times> string set \<Rightarrow> mrow \<Rightarrow> var_map \<times> string set" where
  "extract_row acc row =
     (let sfmc = SFMC row; ajo = AJO row;
          vars_in_sfmc = findall1 re_sfmc_var sfmc
      in if vars_in_sfmc = [] then acc
         else let unique_vars = remdups (map lower vars_in_sfmc);
                  single_var = (length unique_vars = 1);
                  expr = row_expr ajo
              in learn_vars expr single_var ajo vars_in_sfmc acc)"

text \<open>\<^verbatim>\<open>extract_var_expressions(df)\<close> of \<^verbatim>\<open>replace_sfmc_to_ajo_v4.py\<close>\<close>
definition extract_var_expressions :: "mrow list \<Rightarrow> var_map \<times> string set" where
  "extract_var_expressions df = foldl extract_row (Map.empty, {}) df"

subsection \<open>The earlier script\<close>

text \<open>
  \<^verbatim>\<open>extract_var_expressions\<close> of \<^verbatim>\<open>replace_sfmc_to_ajo_v3.py\<close> (lines 39-86) compiles the
  same three patterns and has neither the reserved names nor the test for a single
  variable.
\<close>
definition let_re_v3 :: rx where
  "let_re_v3 = seqs [lit_i ''{%'', star is_space, lit_i ''let'', plus is_space,
     Grp 1 (Seq (Ch ident_start) (star is_word)), star is_space, lit_i ''='', star is_space,
     opt (lit_i ''(''), star is_space, Grp 2 (star_lazy any_char), star is_space,
     opt (lit_i '')''), star is_space, lit_i ''%}'']"

definition print_re_v3 :: rx where
  "print_re_v3 = seqs [lit ''{{'', star is_space, Grp 1 (star_lazy any_char), star is_space, lit ''}}'']"

definition path_re_v3 :: rx where
  "path_re_v3 = seqs [Wordb, Alt (lit_i ''profile'') (lit_i ''context''), lit_i ''.'', plus path_char]"

definition row_expr_v3 :: "string \<Rightarrow> string option" where
  "row_expr_v3 ajo =
     (case search let_re_v3 ajo of
        Some m_let \<Rightarrow> Some (strip (grp m_let 1))
      | None \<Rightarrow>
          (case search print_re_v3 ajo of
             Some m_print \<Rightarrow> Some (strip (grp m_print 1))
           | None \<Rightarrow>
               (case search path_re_v3 ajo of
                  Some m_path \<Rightarrow> Some (strip (h_whole m_path))
                | None \<Rightarrow> None)))"

fun learn_vars_v3 ::
  "string option \<Rightarrow> string \<Rightarrow> string list \<Rightarrow> var_map \<times> string set \<Rightarrow> var_map \<times> string set" where
  "learn_vars_v3 expr ajo [] acc = acc"
| "learn_vars_v3 expr ajo (var # vars) (var_expr, covered) =
     (let vlow = lower var in
      if truthy expr
      then learn_vars_v3 expr ajo vars (var_expr(vlow \<mapsto> the expr), insert vlow covered)
      else if hints_destination ajo
      then learn_vars_v3 expr ajo vars (var_expr, insert vlow covered)
      else learn_vars_v3 expr ajo vars (var_expr, covered))"

definition extract_row_v3 :: "var_map \<times> string set \<Rightarrow> mrow \<Rightarrow> var_map \<times> string set" where
  "extract_row_v3 acc row =
     (let sfmc = SFMC row; ajo = AJO row;
          vars_in_sfmc = findall1 re_sfmc_var sfmc
      in if vars_in_sfmc = [] then acc
         else learn_vars_v3 (row_expr_v3 ajo) ajo vars_in_sfmc acc)"

definition extract_var_expressions_v3 :: "mrow list \<Rightarrow> var_map \<times> string set" where
  "extract_var_expressions_v3 df = foldl extract_row_v3 (Map.empty, {}) df"

section \<open>Print substitution and the Block Converter\<close>

text \<open>\<^verbatim>\<open>%%=v\(@(\w+)\)=%%\<close>, with \<^verbatim>\<open>re.IGNORECASE\<close>\<close>
definition re_print_token :: rx where
  "re_print_token = seqs [lit_i ''%%=v(@'', Grp 1 (plus is_word), lit_i '')=%%'']"

text \<open>
  The callback \<^verbatim>\<open>_print_sub\<close>, written out with the same body in
  \<^verbatim>\<open>replace_all_prints\<close> and in \<^verbatim>\<open>convert_ampscript_if_blocks\<close>.
\<close>
definition print_sub :: "var_map \<Rightarrow> hit \<Rightarrow> string" where
  "print_sub var_expr mv =
     (let var = grp mv 1; expr = resolve_expr var var_expr
      in if expr \<noteq> var then ''{{ '' @ expr @ '' }}'' else h_whole mv)"


text \<open>
  \<^verbatim>\<open>%%\[\s*IF\s+(.+?)(?:\s+THEN)?\s*\]%%(.*?)((?:%%\[\s*ELSE\s*\]%%(.*?))?)%%\[\s*ENDIF\s*\]%%\<close>,
  with \<^verbatim>\<open>re.IGNORECASE | re.DOTALL\<close>
\<close>
definition re_endif :: rx where
  "re_endif = seqs [lit_i ''%%['', star is_space, lit_i ''ENDIF'', star is_space, lit_i '']%%'']"

definition re_if_block :: rx where
  "re_if_block = seqs [lit_i ''%%['', star is_space, lit_i ''IF'', plus is_space,
     Grp 1 (plus_lazy any_char), opt (seqs [plus is_space, lit_i ''THEN'']), star is_space,
     lit_i '']%%'', Grp 2 (star_lazy any_char),
     Grp 3 (opt (seqs [lit_i ''%%['', star is_space, lit_i ''ELSE'', star is_space, lit_i '']%%'',
                       Grp 4 (star_lazy any_char)])),
     re_endif]"

text \<open>\<^verbatim>\<open>%%=v\(@the\)=%%\<close> and \<^verbatim>\<open>%%=v\(@planname\)=%%\<close>, with \<^verbatim>\<open>re.IGNORECASE\<close>\<close>
definition re_the :: rx where "re_the = lit_i ''%%=v(@the)=%%''"
definition re_planname :: rx where "re_planname = lit_i ''%%=v(@planname)=%%''"

definition the_plan :: string where
  "the_plan = ''{% if PlanLegalName startsWith '' @ [squote] @ ''THE'' @ [squote] @ '' %}''
     @ ''{{ PlanLegalName }}'' @ ''{% else %}the {{ PlanLegalName }}{%/if%}''"

text \<open>The callback \<^verbatim>\<open>repl(match)\<close> of \<^verbatim>\<open>convert_ampscript_if_blocks\<close>.\<close>
definition repl ::
  "hit \<Rightarrow> string list \<Rightarrow> var_map \<Rightarrow> string set \<Rightarrow> string \<times> string list \<times> string set" where
  "repl match warnings var_expr covered_vars =
     (let cond = strip (grp match 1);
          then_block = grp match 2;
          else_block = grp match 4
      in case translate_condition_to_liquid cond warnings var_expr covered_vars of
           (cond_liquid, warnings1, cov) \<Rightarrow>
             if search re_the then_block \<noteq> None \<and> search re_planname then_block \<noteq> None
             then (cond_liquid @ the_plan
                     @ (if strip else_block \<noteq> [] then ''{% else %}'' @ else_block else [])
                     @ ''{%/if%}'', warnings1, cov)
             else let then_block1 = re_sub re_print_token (print_sub var_expr) then_block;
                      else_block1 = re_sub re_print_token (print_sub var_expr) else_block
                  in if strip else_block1 \<noteq> []
                     then (cond_liquid @ then_block1 @ ''{% else %}'' @ else_block1 @ ''{%/if%}'',
                           warnings1, cov)
                     else (cond_liquid @ then_block1 @ ''{%/if%}'', warnings1, cov))"

text \<open>
  \<^verbatim>\<open>pattern.sub(repl, html_text)\<close>: the callback runs once per match, from left to right,
  each call starting from the warning list and covered set the one before left.
\<close>
fun sub_blocks ::
  "seg list \<Rightarrow> string list \<Rightarrow> var_map \<Rightarrow> string set \<Rightarrow> string \<times> string list \<times> string set" where
  "sub_blocks [] warnings var_expr covered_vars = ([], warnings, covered_vars)"
| "sub_blocks (Skip c # gs) warnings var_expr covered_vars =
     (case sub_blocks gs warnings var_expr covered_vars of
        (out, warnings2, cov2) \<Rightarrow> (c # out, warnings2, cov2))"
| "sub_blocks (Hit h # gs) warnings var_expr covered_vars =
     (case repl h warnings var_expr covered_vars of
        (txt, warnings1, cov1) \<Rightarrow>
          (case sub_blocks gs warnings1 var_expr cov1 of
             (out, warnings2, cov2) \<Rightarrow> (txt @ out, warnings2, cov2)))"

text \<open>\<^verbatim>\<open>convert_ampscript_if_blocks(html_text, warnings, var_expr, covered_vars)\<close>\<close>
definition convert_ampscript_if_blocks ::
  "string \<Rightarrow> string list \<Rightarrow> var_map \<Rightarrow> string set \<Rightarrow> string \<times> string list \<times> string set" where
  "convert_ampscript_if_blocks html_text warnings var_expr covered_vars =
     sub_blocks (finditer re_if_block html_text) warnings var_expr covered_vars"


section \<open>Safe commenting and hoisting\<close>

text \<open>A logged fragment: \<^verbatim>\<open>(line_number, snippet)\<close>.\<close>
type_synonym fragment = "nat \<times> string"

definition attr_char :: "char \<Rightarrow> bool" where
  "attr_char c = (is_word c \<or> c = CHR '':'' \<or> c = CHR ''-'')"

text \<open>\<^verbatim>\<open>(\s[\w:-]+\s*=\s*)(["\'])(%%=.*?=%%)\2\<close>, with \<^verbatim>\<open>re.DOTALL\<close>\<close>
definition attr_token_re :: rx where
  "attr_token_re = seqs [
     Grp 1 (seqs [Ch is_space, plus attr_char, star is_space, lit ''='', star is_space]),
     Grp 2 (Ch (one_of quotes)),
     Grp 3 (seqs [lit ''%%='', star_lazy any_char, lit ''=%%'']),
     Bref 2]"

text \<open>\<^verbatim>\<open>[\s\S]\<close>\<close>
definition space_or_not :: "char \<Rightarrow> bool" where
  "space_or_not c = (is_space c \<or> \<not> is_space c)"

text \<open>
  \<^verbatim>\<open>(%%=.+?=%%|%%\[[\s\S]*?\]%%|<script[^>]*\brunat=[\'"]server[\'"][^>]*>[\s\S]*?<\/script>)\<close>,
  with \<^verbatim>\<open>re.IGNORECASE | re.DOTALL\<close>
\<close>
definition block_re :: rx where
  "block_re = Grp 1 (Alt (seqs [lit_i ''%%='', plus_lazy any_char, lit_i ''=%%''])
     (Alt (seqs [lit_i ''%%['', star_lazy space_or_not, lit_i '']%%''])
          (seqs [lit_i ''<script'', star (none_of ''>''), Wordb, lit_i ''runat='',
                 Ch (one_of quotes), lit_i ''server'', Ch (one_of quotes), star (none_of ''>''),
                 lit_i ''>'', star_lazy space_or_not, lit_i ''</script>''])))"

text \<open>\<^verbatim>\<open>{%\s*let\s+[^%]+%}\<close>, with \<^verbatim>\<open>re.IGNORECASE | re.DOTALL\<close>\<close>
definition hoist_let_re :: rx where
  "hoist_let_re = seqs [lit_i ''{%'', star is_space, lit_i ''let'', plus is_space,
     plus (none_of ''%''), lit_i ''%}'']"

text \<open>\<^verbatim>\<open>html_text.count("\n", 0, idx) + 1\<close>\<close>
definition line_of :: "string \<Rightarrow> nat \<Rightarrow> nat" where
  "line_of html_text idx = length (filter (\<lambda>c. c = newline) (take idx html_text)) + 1"

text \<open>
  \<^verbatim>\<open>html_text.splitlines()\<close>: a line ends at \<^verbatim>\<open>\n\<close>, \<^verbatim>\<open>\r\<close>, \<^verbatim>\<open>\r\n\<close>, \<^verbatim>\<open>\v\<close>, \<^verbatim>\<open>\f\<close>,
  \<^verbatim>\<open>\x1c\<close>, \<^verbatim>\<open>\x1d\<close>, \<^verbatim>\<open>\x1e\<close> or \<^verbatim>\<open>\x85\<close>; a line end that closes the text opens no further
  line.
\<close>
definition line_breaks :: string where
  "line_breaks = [CHR 0x0A, CHR 0x0D, CHR 0x0B, CHR 0x0C, CHR 0x1C, CHR 0x1D, CHR 0x1E, CHR 0x85]"

function splitlines_from :: "string \<Rightarrow> string \<Rightarrow> string list" where
  "splitlines_from cur [] = (if cur = [] then [] else [rev cur])"
| "splitlines_from cur (c # cs) =
     (if c = CHR 0x0D \<and> cs \<noteq> [] \<and> hd cs = CHR 0x0A then rev cur # splitlines_from [] (tl cs)
      else if c \<in> set line_breaks then rev cur # splitlines_from [] cs
      else splitlines_from (c # cur) cs)"
  by pat_completeness auto
termination
  by (relation "measure (\<lambda>(cur, s). length s)") auto

definition splitlines :: "string \<Rightarrow> string list" where
  "splitlines s = splitlines_from [] s"

text \<open>The list \<^verbatim>\<open>offsets\<close>: 0, then the running sum of the line lengths plus one.\<close>
fun offsets_from :: "nat \<Rightarrow> string list \<Rightarrow> nat list" where
  "offsets_from acc [] = [acc]"
| "offsets_from acc (l # ls) = acc # offsets_from (acc + length l + 1) ls"

text \<open>The inner function \<^verbatim>\<open>find_line(pos)\<close>.\<close>
definition find_line :: "string list \<Rightarrow> nat \<Rightarrow> nat" where
  "find_line lines pos =
     (case List.find (\<lambda>(i, e). pos < e) (enumerate 0 (offsets_from 0 lines)) of
        Some (i, e) \<Rightarrow> max 1 i
      | None \<Rightarrow> length lines)"

text \<open>Phase 1: what replaces one attribute match, and what is logged for it.\<close>
definition attr_piece :: "hit \<Rightarrow> string" where
  "attr_piece m = grp m 1 @ grp m 2 @ grp m 2 @ '' <!-- '' @ grp m 3 @ '' -->''"

definition attr_phase :: "string \<Rightarrow> string \<times> fragment list" where
  "attr_phase html_text =
     (let ms1 = finditer attr_token_re html_text
      in (concat (map (\<lambda>g. case g of Skip c \<Rightarrow> [c] | Hit m \<Rightarrow> attr_piece m) ms1),
          map (\<lambda>m. (line_of html_text (h_start m), grp m 3)) (hits ms1)))"

text \<open>
  Phase 2: what one match of \<^verbatim>\<open>block_re\<close> appends to \<^verbatim>\<open>out\<close> and to \<^verbatim>\<open>commented\<close>.
\<close>
definition block_piece :: "nat \<Rightarrow> string \<Rightarrow> string \<times> fragment list" where
  "block_piece line_no full =
     (if startswith full ''%%=''
      then (''<!-- '' @ full @ '' -->'', [(line_no, full)])
      else if startswith (lower full) ''%%['' \<or> startswith (lower full) ''<script''
      then (let lets = findall0 hoist_let_re full;
                cleaned = re_sub hoist_let_re (\<lambda>m. []) full
            in if strip cleaned \<noteq> []
               then (concat lets @ ''<!-- '' @ cleaned @ '' -->'', [(line_no, strip cleaned)])
               else (concat lets, []))
      else (''<!-- '' @ full @ '' -->'', [(line_no, full)]))"

definition block_phase :: "string \<Rightarrow> string \<times> fragment list" where
  "block_phase html_text =
     (let lines = splitlines html_text;
          pieces = map (\<lambda>g. case g of Skip c \<Rightarrow> ([c], [])
                                   | Hit m \<Rightarrow> block_piece (find_line lines (h_start m)) (grp m 1))
                       (finditer block_re html_text)
      in (concat (map fst pieces), concat (map snd pieces)))"

text \<open>\<^verbatim>\<open>comment_ampscript_with_hoist(html_text)\<close> of \<^verbatim>\<open>replace_sfmc_to_ajo_v4.py\<close>\<close>
definition comment_ampscript_with_hoist :: "string \<Rightarrow> string \<times> fragment list" where
  "comment_ampscript_with_hoist html_text =
     (case attr_phase html_text of
        (html1, commented1) \<Rightarrow>
          (case block_phase html1 of
             (html2, commented2) \<Rightarrow> (html2, commented1 @ commented2)))"

subsection \<open>The earlier script\<close>

text \<open>
  \<^verbatim>\<open>comment_ampscript_with_hoist\<close> of \<^verbatim>\<open>replace_sfmc_to_ajo_v3.py\<close> (lines 215-266) has
  the second phase only, compiles the same two patterns, and hoists out of every match.
\<close>
definition block_re_v3 :: rx where
  "block_re_v3 = Grp 1 (Alt (seqs [lit_i ''%%='', plus_lazy any_char, lit_i ''=%%''])
     (Alt (seqs [lit_i ''%%['', star_lazy space_or_not, lit_i '']%%''])
          (seqs [lit_i ''<script'', star (none_of ''>''), Wordb, lit_i ''runat='',
                 Ch (one_of quotes), lit_i ''server'', Ch (one_of quotes), star (none_of ''>''),
                 lit_i ''>'', star_lazy space_or_not, lit_i ''</script>''])))"

definition hoist_let_re_v3 :: rx where
  "hoist_let_re_v3 = seqs [lit_i ''{%'', star is_space, lit_i ''let'', plus is_space,
     plus (none_of ''%''), lit_i ''%}'']"

definition block_piece_v3 :: "nat \<Rightarrow> string \<Rightarrow> string \<times> fragment list" where
  "block_piece_v3 line_no full =
     (let lets = findall0 hoist_let_re_v3 full;
          cleaned = re_sub hoist_let_re_v3 (\<lambda>m. []) full
      in if strip cleaned \<noteq> []
         then (concat lets @ ''<!-- '' @ cleaned @ '' -->'', [(line_no, strip cleaned)])
         else (concat lets, []))"

definition comment_ampscript_with_hoist_v3 :: "string \<Rightarrow> string \<times> fragment list" where
  "comment_ampscript_with_hoist_v3 html_text =
     (let lines = splitlines html_text;
          pieces = map (\<lambda>g. case g of Skip c \<Rightarrow> ([c], [])
                                   | Hit m \<Rightarrow> block_piece_v3 (find_line lines (h_start m)) (grp m 1))
                       (finditer block_re_v3 html_text)
      in (concat (map fst pieces), concat (map snd pieces)))"

section \<open>The Literal Substitution Pass\<close>

text \<open>
  \<^verbatim>\<open>build_flex_regex(sfmc_snippet)\<close>. The function escapes the trimmed snippet with
  \<^verbatim>\<open>re.escape\<close>, rewrites every escaped blank (\<^verbatim>\<open>\\[ \t\r\n\f]+\<close>) to \<^verbatim>\<open>\s*\<close>, rewrites
  \<^verbatim>\<open>\=\<close> to \<^verbatim>\<open>\s*=\s*\<close> and compiles the result with \<^verbatim>\<open>re.IGNORECASE | re.DOTALL\<close>. The
  model builds the compiled pattern character by character. \<^verbatim>\<open>re.escape\<close> is the one of
  Python 3.7 and later, which puts a backslash before the blanks and the special
  characters and leaves \<^verbatim>\<open>=\<close> alone; so the text \<^verbatim>\<open>\=\<close> only arises from a backslash of
  the snippet followed by \<^verbatim>\<open>=\<close>, where the rewriting yields the pattern \<^verbatim>\<open>\\s*=\s*\<close>.
\<close>
definition flex_blanks :: string where
  "flex_blanks = [CHR '' '', CHR 0x09, CHR 0x0D, CHR 0x0A, CHR 0x0C]"

fun flex_atoms :: "string \<Rightarrow> rx list" where
  "flex_atoms [] = []"
| "flex_atoms (c # cs) =
     (if c \<in> set flex_blanks then star is_space # flex_atoms cs
      else if c = backslash \<and> cs \<noteq> [] \<and> hd cs = CHR ''=''
      then Ch (ci backslash) # star (ci CHR ''s'') # Ch (ci CHR ''='') # star is_space
             # flex_atoms (tl cs)
      else Ch (ci c) # flex_atoms cs)"

definition build_flex_regex :: "string \<Rightarrow> rx" where
  "build_flex_regex sfmc_snippet = seqs (flex_atoms (strip sfmc_snippet))"

text \<open>
  \<^verbatim>\<open>pattern.subn(ajo, work)\<close> takes \<^verbatim>\<open>ajo\<close> as a replacement template. A template without
  a backslash stands for itself. One with a backslash is expanded by Python or makes
  it raise \<^verbatim>\<open>re.error\<close>; the model does not follow the expansion and reports such a
  template as \<open>Template_Escape\<close>.
\<close>
datatype error = Template_Escape

definition subn :: "rx \<Rightarrow> string \<Rightarrow> string \<Rightarrow> error + string \<times> nat" where
  "subn pattern template work =
     (if backslash \<in> set template then Inl Template_Escape
      else Inr (re_sub pattern (\<lambda>m. template) work, length (hits (finditer pattern work))))"

text \<open>The state of the loop: \<^verbatim>\<open>work\<close>, \<^verbatim>\<open>total_found\<close>, \<^verbatim>\<open>total_replaced\<close>.\<close>
record pass_state =
  work :: string
  total_found :: nat
  total_replaced :: nat

text \<open>One turn of the loop \<^verbatim>\<open>for r in rows\<close>.\<close>
definition literal_step :: "pass_state \<Rightarrow> mrow \<Rightarrow> error + pass_state" where
  "literal_step st r =
     (let sfmc = strip (SFMC r); ajo = strip (AJO r)
      in if sfmc = [] then Inr st
         else let pattern = build_flex_regex sfmc;
                  matches = hits (finditer pattern (work st))
              in if matches = [] then Inr st
                 else let st1 = st\<lparr>total_found := total_found st + length matches\<rparr>
                      in if ajo \<noteq> []
                         then (case subn pattern ajo (work st1) of
                                 Inl e \<Rightarrow> Inl e
                               | Inr (w, n) \<Rightarrow>
                                   Inr (st1\<lparr>work := w, total_replaced := total_replaced st1 + n\<rparr>))
                         else Inr st1)"

fun literal_loop :: "pass_state \<Rightarrow> mrow list \<Rightarrow> error + pass_state" where
  "literal_loop st [] = Inr st"
| "literal_loop st (r # rows) =
     (case literal_step st r of Inl e \<Rightarrow> Inl e | Inr st1 \<Rightarrow> literal_loop st1 rows)"

text \<open>
  \<^verbatim>\<open>sorted(..., key=lambda r: len(str(r["SFMC"]).strip()), reverse=True)\<close>: longest
  trimmed source first, rows of equal length in their order in the sheet.
\<close>
definition sorted_rows :: "mrow list \<Rightarrow> mrow list" where
  "sorted_rows df = sort_key (\<lambda>r. - int (length (strip (SFMC r)))) df"

definition literal_pass :: "string \<Rightarrow> mrow list \<Rightarrow> error + pass_state" where
  "literal_pass html_after_if df =
     literal_loop \<lparr>work = html_after_if, total_found = 0, total_replaced = 0\<rparr> (sorted_rows df)"


section \<open>Predicates and documents used in the statements\<close>

text \<open>
  A binding declaration as the hoisting pattern \<^verbatim>\<open>{%\s*let\s+[^%]+%}\<close> reads it: \<^verbatim>\<open>{%\<close>,
  blanks, \<^verbatim>\<open>let\<close> (in any case), at least one blank, a body without \<^verbatim>\<open>%\<close>, \<^verbatim>\<open>%}\<close>.
\<close>
definition is_binding :: "string \<Rightarrow> bool" where
  "is_binding l = (\<exists>a sp1 b sp2 body c. l = a @ sp1 @ b @ sp2 @ body @ c \<and>
    lower a = ''{%'' \<and> (\<forall>x\<in>set sp1. is_space x) \<and> lower b = ''let'' \<and> sp2 \<noteq> [] \<and>
    (\<forall>x\<in>set sp2. is_space x) \<and> body \<noteq> [] \<and> CHR ''%'' \<notin> set body \<and> lower c = ''%}'')"


text \<open>A block that holds a binding whose body has a percent sign in a string literal.\<close>
definition doc6 :: string where
  "doc6 = ''a%%[ {% let pct = '' @ [dquote] @ ''50%'' @ [dquote] @ '' %} ]%%b''"


text \<open>A block that holds an assignment and a binding.\<close>
definition doc6_ok :: string where
  "doc6_ok = ''a%%[ SET @a = 1 {% let x = 1 %} ]%%b''"

section \<open>Properties of the matcher and of a scan\<close>

declare scan.simps [simp del]

lemma runs_suffix:
  "(p', r') \<in> set (runs P p s) \<Longrightarrow>
     \<exists>w. s = w @ r' \<and> (\<forall>c\<in>set w. P c) \<and> p' = (if w = [] then p else Some (last w))"
proof (induction s arbitrary: p)
  case Nil
  then show ?case by simp
next
  case (Cons c cs)
  from Cons.prems consider "(p', r') = (p, c # cs)" | "P c" "(p', r') \<in> set (runs P (Some c) cs)"
    by (auto split: if_splits)
  then show ?case
  proof cases
    case 1
    then show ?thesis by simp
  next
    case 2
    from Cons.IH [OF 2(2)] obtain w where
      w: "cs = w @ r'" "\<forall>c\<in>set w. P c" "p' = (if w = [] then Some c else Some (last w))"
      by blast
    show ?thesis
      by (rule exI [of _ "c # w"]) (use w 2(1) in auto)
  qed
qed

lemma ms_suffix: "m \<in> set (ms r s) \<Longrightarrow> \<exists>w. rest s = w @ rest m"
proof (induction r arbitrary: s m)
  case (Seq a b)
  then obtain t where "t \<in> set (ms a s)" "m \<in> set (ms b t)" by auto
  with Seq.IH show ?case by (metis append.assoc)
next
  case (Many g P)
  then obtain p' r' where "(p', r') \<in> set (runs P (prev s) (rest s))" "rest m = r'"
    by (auto split: if_splits)
  then show ?case using runs_suffix by fastforce
next
  case (Bref n)
  then show ?case
    by (auto split: option.splits if_splits) (metis append_take_drop_id)
next
  case (Ch P)
  then show ?case
    by (cases "rest s") (auto split: if_splits)
qed (auto split: list.splits if_splits)

lemma mk_hit_whole:
  assumes "m \<in> set (ms r (start_state p s))"
  shows "h_whole (mk_hit pos s m) @ rest m = s"
proof -
  from ms_suffix [OF assms] have "\<exists>w. s = w @ rest m" by (auto simp: start_state_def)
  then obtain w where w: "s = w @ rest m" by blast
  have "take (length s - length (rest m)) s = w"
    by (subst (1 2) w) simp
  with w show ?thesis by (simp add: mk_hit_def)
qed


text \<open>Every reported match is a result of the matcher at some position of the text.\<close>
lemma scan_hit_origin:
  "Hit h \<in> set (scan r pos p s) \<Longrightarrow>
     \<exists>pre post p' m. s = pre @ post \<and> m \<in> set (ms r (start_state p' post)) \<and>
        h = mk_hit (pos + length pre) post m"
proof (induction r pos p s arbitrary: h rule: scan.induct)
  case (1 r pos p s)
  show ?case
  proof (cases "ms r (start_state p s)")
    case Nil
    with "1.prems" obtain c cs where s: "s = c # cs" and h: "Hit h \<in> set (scan r (Suc pos) (Some c) cs)"
      by (subst (asm) scan.simps) (auto split: list.splits)
    from "1.IH"(1) [OF Nil s h] obtain pre post p' m where
      "cs = pre @ post" "m \<in> set (ms r (start_state p' post))" "h = mk_hit (Suc pos + length pre) post m"
      by blast
    then show ?thesis using s
      by (intro exI [of _ "c # pre"] exI [of _ post] exI [of _ p'] exI [of _ m]) simp
  next
    case (Cons m others)
    then have m: "m \<in> set (ms r (start_state p s))" by simp
    have here: "\<exists>pre post p' m'. s = pre @ post \<and> m' \<in> set (ms r (start_state p' post)) \<and>
        mk_hit pos s t = mk_hit (pos + length pre) post m'" if "t \<in> set (ms r (start_state p s))" for t
      using that by (intro exI [of _ "[]"] exI [of _ s] exI [of _ p] exI [of _ t]) simp
    have later: "\<exists>pre post p' m'. s = pre @ post \<and> m' \<in> set (ms r (start_state p' post)) \<and>
        h = mk_hit (pos + length pre) post m'"
      if t: "t \<in> set (ms r (start_state p s))"
        and ih: "\<exists>pre post p' m'. rest t = pre @ post \<and> m' \<in> set (ms r (start_state p' post)) \<and>
        h = mk_hit (pos + (length s - length (rest t)) + length pre) post m'" for t
    proof -
      from ms_suffix [OF t] obtain w where w: "s = w @ rest t" by (auto simp: start_state_def)
      then have n: "length s - length (rest t) = length w" by (metis add_diff_cancel_right' length_append)
      from ih obtain pre post p' m' where
        "rest t = pre @ post" "m' \<in> set (ms r (start_state p' post))"
        "h = mk_hit (pos + (length s - length (rest t)) + length pre) post m'" by blast
      then show ?thesis using w n
        by (intro exI [of _ "w @ pre"] exI [of _ post] exI [of _ p'] exI [of _ m']) (simp add: add.assoc)
    qed
    show ?thesis
    proof (cases "length (rest m) < length s")
      case True
      with Cons "1.prems" consider "h = mk_hit pos s m"
        | "Hit h \<in> set (scan r (pos + (length s - length (rest m))) (prev m) (rest m))"
        by (subst (asm) scan.simps) auto
      then show ?thesis
      proof cases
        case 1
        then show ?thesis using here [OF m] by simp
      next
        case 2
        from "1.IH"(2) [OF Cons True 2] show ?thesis by (rule later [OF m])
      qed
    next
      case False
      show ?thesis
      proof (cases "filter (\<lambda>t. length (rest t) < length s) others")
        case Nil
        with Cons False "1.prems" consider "h = mk_hit pos s m"
          | c cs where "s = c # cs" "Hit h \<in> set (scan r (Suc pos) (Some c) cs)"
          by (subst (asm) scan.simps) (auto split: list.splits)
        then show ?thesis
        proof cases
          case 1
          then show ?thesis using here [OF m] by simp
        next
          case 2
          from "1.IH"(3) [OF Cons False Nil 2] obtain pre post p' m' where
            "cs = pre @ post" "m' \<in> set (ms r (start_state p' post))"
            "h = mk_hit (Suc pos + length pre) post m'"
            by blast
          then show ?thesis using 2(1)
            by (intro exI [of _ "c # pre"] exI [of _ post] exI [of _ p'] exI [of _ m']) simp
        qed
      next
        case (Cons t ts)
        then have "t \<in> set (filter (\<lambda>t. length (rest t) < length s) others)" by simp
        then have t: "t \<in> set (ms r (start_state p s))"
          using \<open>ms r (start_state p s) = m # others\<close> by simp
        from \<open>ms r (start_state p s) = m # others\<close> Cons False "1.prems"
        consider "h = mk_hit pos s m" | "h = mk_hit pos s t"
          | "Hit h \<in> set (scan r (pos + (length s - length (rest t))) (prev t) (rest t))"
          by (subst (asm) scan.simps) auto
        then show ?thesis
        proof cases
          case 1
          then show ?thesis using here [OF m] by simp
        next
          case 2
          then show ?thesis using here [OF t] by simp
        next
          case 3
          from "1.IH"(4) [OF \<open>ms r (start_state p s) = m # others\<close> False Cons 3]
          show ?thesis by (rule later [OF t])
        qed
      qed
    qed
  qed
qed

lemma hits_set: "h \<in> set (hits segs) \<longleftrightarrow> Hit h \<in> set segs"
  by (induction segs) (auto simp: hits_def split: seg.splits)

lemma finditer_hit:
  assumes "h \<in> set (hits (finditer r text))"
  obtains pre m p' where "text = pre @ h_whole h @ rest m"
    and "m \<in> set (ms r (start_state p' (h_whole h @ rest m)))"
    and "h_start h = length pre" and "h_caps h = caps m"
proof -
  from assms have "Hit h \<in> set (scan r 0 None text)" by (simp add: hits_set finditer_def)
  from scan_hit_origin [OF this] obtain pre post p' m where
    *: "text = pre @ post" "m \<in> set (ms r (start_state p' post))" "h = mk_hit (0 + length pre) post m"
    by blast
  from mk_hit_whole [OF *(2), of "0 + length pre"] *(3) have "h_whole h @ rest m = post" by simp
  with * show ?thesis by (intro that [of pre m p']) (auto simp: mk_hit_def)
qed

lemma ms_seqs_Nil: "ms (seqs []) s = [s]"
  by (simp add: seqs_def)

lemma in_ms_seqs_Cons:
  "m \<in> set (ms (seqs (r # rs)) s) \<longleftrightarrow> (\<exists>t \<in> set (ms r s). m \<in> set (ms (seqs rs) t))"
  by (auto simp: seqs_def)

lemma in_ms_Seq: "m \<in> set (ms (Seq a b) s) \<longleftrightarrow> (\<exists>t \<in> set (ms a s). m \<in> set (ms b t))"
  by simp

lemma nogrp_caps: "nogrp r \<Longrightarrow> m \<in> set (ms r s) \<Longrightarrow> caps m = caps s"
proof (induction r arbitrary: s m)
  case (Seq a b)
  then obtain t where "t \<in> set (ms a s)" "m \<in> set (ms b t)" by auto
  with Seq show ?case by (metis nogrp.simps(1))
qed (auto split: list.splits if_splits option.splits)

lemma in_ms_Ch:
  "m \<in> set (ms (Ch P) s) \<Longrightarrow> \<exists>c. rest s = c # rest m \<and> P c \<and> caps m = caps s"
  by (cases "rest s") (auto split: if_splits)


lemma in_ms_lit_i:
  "m \<in> set (ms (lit_i w) s) \<Longrightarrow> \<exists>u. rest s = u @ rest m \<and> lower u = lower w \<and> caps m = caps s"
proof (induction w arbitrary: s)
  case Nil
  then show ?case by (simp add: lit_i_def seqs_def lower_def)
next
  case (Cons c w)
  from Cons.prems obtain t where t: "t \<in> set (ms (Ch (ci c)) s)" and m: "m \<in> set (ms (lit_i w) t)"
    by (auto simp: lit_i_def seqs_def)
  from in_ms_Ch [OF t] obtain x where x: "rest s = x # rest t" "ci c x" "caps t = caps s" by blast
  from Cons.IH [OF m] obtain u where u: "rest t = u @ rest m" "lower u = lower w" "caps m = caps t"
    by blast
  show ?case
    by (rule exI [of _ "x # u"]) (use x u in \<open>auto simp: lower_def ci_def\<close>)
qed

lemma in_ms_Many:
  "m \<in> set (ms (Many g P) s) \<Longrightarrow> \<exists>u. rest s = u @ rest m \<and> (\<forall>c\<in>set u. P c) \<and> caps m = caps s"
proof -
  assume "m \<in> set (ms (Many g P) s)"
  then obtain p' r' where "(p', r') \<in> set (runs P (prev s) (rest s))" "m = s\<lparr>prev := p', rest := r'\<rparr>"
    by (auto split: if_splits)
  with runs_suffix [of p' r' P "prev s" "rest s"] show ?thesis by auto
qed

lemma in_ms_plus:
  "m \<in> set (ms (plus P) s) \<Longrightarrow>
     \<exists>u. rest s = u @ rest m \<and> u \<noteq> [] \<and> (\<forall>c\<in>set u. P c) \<and> caps m = caps s"
proof -
  assume "m \<in> set (ms (plus P) s)"
  then obtain t where t: "t \<in> set (ms (Ch P) s)" and m: "m \<in> set (ms (Many True P) t)"
    unfolding plus_def in_ms_Seq by blast
  from in_ms_Ch [OF t] obtain c where c: "rest s = c # rest t" "P c" "caps t = caps s" by blast
  from in_ms_Many [OF m] obtain u where "rest t = u @ rest m" "\<forall>c\<in>set u. P c" "caps m = caps t"
    by blast
  with c show ?thesis by (intro exI [of _ "c # u"]) auto
qed

lemma in_ms_Grp:
  assumes "nogrp a" and "m \<in> set (ms (Grp n a) s)"
  shows "\<exists>t w. t \<in> set (ms a s) \<and> rest t = rest m \<and> rest s = w @ rest m \<and>
    caps m = (caps s)(n \<mapsto> w)"
proof -
  from assms(2) obtain t where t: "t \<in> set (ms a s)"
    and m: "m = t\<lparr>caps := (caps t)(n \<mapsto> take (length (rest s) - length (rest t)) (rest s))\<rparr>"
    by auto
  from ms_suffix [OF t] obtain w where w: "rest s = w @ rest t" by blast
  then have "take (length (rest s) - length (rest t)) (rest s) = w" by simp
  with t m w nogrp_caps [OF assms(1) t] show ?thesis by auto
qed






declare ms.simps [simp del]










section \<open>The character classes, restated\<close>

lemma is_space_iff: "is_space c \<longleftrightarrow> c \<in> set spaces"
proof (cases c)
  case (Char b0 b1 b2 b3 b4 b5 b6 b7)
  show ?thesis unfolding Char spaces_def
    by (cases b0; cases b1; cases b2; cases b3; cases b4; cases b5; cases b6; cases b7; simp)
qed

lemma is_upper_iff: "is_upper c \<longleftrightarrow> c \<in> set uppers"
proof (cases c)
  case (Char b0 b1 b2 b3 b4 b5 b6 b7)
  show ?thesis unfolding Char uppers_def
    by (cases b0; cases b1; cases b2; cases b3; cases b4; cases b5; cases b6; cases b7;
        simp add: letter_bits_def)
qed

lemma ascii_alpha_iff: "ascii_alpha c \<longleftrightarrow> c \<in> set uppers \<or> c \<in> set lowers"
proof (cases c)
  case (Char b0 b1 b2 b3 b4 b5 b6 b7)
  show ?thesis unfolding Char uppers_def lowers_def
    by (cases b0; cases b1; cases b2; cases b3; cases b4; cases b5; cases b6; cases b7;
        simp add: letter_bits_def)
qed

lemma ascii_digit_iff: "ascii_digit c \<longleftrightarrow> c \<in> set digits"
proof (cases c)
  case (Char b0 b1 b2 b3 b4 b5 b6 b7)
  show ?thesis unfolding Char digits_def
    by (cases b0; cases b1; cases b2; cases b3; cases b4; cases b5; cases b6; cases b7; simp)
qed

text \<open>Beyond ASCII a character is decided by its two high bits and the lists above.\<close>
lemma is_word_iff:
  "is_word c \<longleftrightarrow>
     (if (of_char c :: nat) < 128 then ascii_alpha c \<or> ascii_digit c \<or> c = CHR ''_''
      else if (of_char c :: nat) < 192 then c \<in> set latin1_low_words
      else c \<notin> set latin1_signs)"
proof (cases c)
  case (Char b0 b1 b2 b3 b4 b5 b6 b7)
  show ?thesis unfolding Char latin1_signs_def
    by (cases b0; cases b1; cases b2; cases b3; cases b4; cases b5; cases b6; cases b7;
        simp add: letter_bits_def sign_bits_def)
qed

lemma is_alpha_iff:
  "is_alpha c \<longleftrightarrow>
     (if (of_char c :: nat) < 128 then ascii_alpha c
      else if (of_char c :: nat) < 192 then c \<in> set latin1_low_letters
      else c \<notin> set latin1_signs)"
proof (cases c)
  case (Char b0 b1 b2 b3 b4 b5 b6 b7)
  show ?thesis unfolding Char latin1_signs_def
    by (cases b0; cases b1; cases b2; cases b3; cases b4; cases b5; cases b6; cases b7;
        simp add: letter_bits_def sign_bits_def)
qed

lemma lower_c_eq:
  "lower_c c =
     (case map_of (zip (uppers @ latin1_uppers) (lowers @ latin1_lowers)) c of
        None \<Rightarrow> c | Some d \<Rightarrow> d)"
proof (cases c)
  case (Char b0 b1 b2 b3 b4 b5 b6 b7)
  show ?thesis unfolding Char uppers_def lowers_def latin1_uppers_def latin1_lowers_def
    by (cases b0; cases b1; cases b2; cases b3; cases b4; cases b5; cases b6; cases b7;
        simp add: letter_bits_def sign_bits_def)
qed

section \<open>Properties of the Condition Translator\<close>

declare translate_condition_to_liquid.simps [simp del]
declare translate_condition_to_liquid_v3.simps [simp del]

lemma learn_expr_mono: "learn_expr v var_expr cov = (e, cov') \<Longrightarrow> cov \<subseteq> cov'"
  by (auto simp: learn_expr_def Let_def split: if_splits)

lemma translate_covered_mono:
  "covered_vars \<subseteq> snd (snd (translate_condition_to_liquid cond warnings var_expr covered_vars))"
proof (induction cond warnings var_expr covered_vars rule: translate_condition_to_liquid.induct)
  case (1 cond warnings var_expr covered_vars)
  show ?case
    apply (subst translate_condition_to_liquid.simps)
    using 1 [OF refl refl]
    apply (auto simp: Let_def split: option.splits prod.splits dest: learn_expr_mono)
    done
qed

lemma v3_parts_eq:
  "resolve_expr_v3 = resolve_expr" "re_var_v3 = re_var" "re_not_empty_v3 = re_not_empty"
  "re_empty_v3 = re_empty" "re_contains_v3 = re_contains" "re_cmp_v3 = re_cmp"
  "re_truthy_v3 = re_truthy" "allow_list_v3 = allow_list"
  by (simp_all add: fun_eq_iff resolve_expr_v3_def resolve_expr_def re_var_v3_def re_var_def
      re_not_empty_v3_def re_not_empty_def re_empty_v3_def re_empty_def re_contains_v3_def
      re_contains_def re_cmp_v3_def re_cmp_def re_truthy_v3_def re_truthy_def allow_list_v3_def
      allow_list_def)

lemma v3_helpers_eq: "note_vars_v3 = note_vars" "learn_expr_v3 = learn_expr"
  by (simp_all add: fun_eq_iff note_vars_v3_def note_vars_def learn_expr_v3_def learn_expr_def
      v3_parts_eq)

text \<open>
  Claim C10. The Condition Translators of the two scripts are the same function: on
  every condition, warning list, variable mapping and covered set they return the same
  text and leave the same warning list and the same covered set.
\<close>
theorem translate_condition_v3_eq_v4:
  "translate_condition_to_liquid_v3 cond warnings var_expr covered_vars =
   translate_condition_to_liquid cond warnings var_expr covered_vars"
proof (induction cond warnings var_expr covered_vars rule: translate_condition_to_liquid.induct)
  case (1 cond warnings var_expr covered_vars)
  show ?case
    apply (subst translate_condition_to_liquid.simps)
    apply (subst translate_condition_to_liquid_v3.simps)
    using 1 [OF refl refl]
    apply (auto simp: Let_def v3_parts_eq v3_helpers_eq split: option.splits prod.splits)
    done
qed





section \<open>Properties of the inference\<close>

text \<open>
  In the later script a row that names more than one variable (up to case) leaves the
  variable mapping as it was, whatever its AJO cell holds.
\<close>
lemma learn_vars_not_single: "fst (learn_vars expr False ajo vars acc) = fst acc"
  by (induction expr "False" ajo vars acc rule: learn_vars.induct) (auto simp: Let_def)

lemma extract_row_many_vars:
  assumes "1 < length (remdups (map lower (findall1 re_sfmc_var (SFMC row))))"
  shows "fst (extract_row acc row) = fst acc"
  using assms by (auto simp: extract_row_def Let_def learn_vars_not_single)

lemma extract_many_vars_example:
  "fst (extract_var_expressions
      [\<lparr>SFMC = ''@The@PlanName'', AJO = ''{% let PlanLegalName = profile.plan %}''\<rparr>]) = Map.empty"
proof -
  have "1 < length (remdups (map lower (findall1 re_sfmc_var ''@The@PlanName'')))" by code_simp
  then show ?thesis
    by (simp add: extract_var_expressions_def extract_row_many_vars)
qed

text \<open>
  Claim C2 says that a row naming more than one variable adds no entry to the variable
  mapping, and that the row \<^verbatim>\<open>@The@PlanName\<close> never yields entries for \<^verbatim>\<open>the\<close> or
  \<^verbatim>\<open>planname\<close>. The inference of the earlier script has no such test: from that row, with
  a binding declaration in the AJO cell, it maps both names to the bound name.
\<close>
theorem v3_inference_maps_both_variables:
  "fst (extract_var_expressions_v3
      [\<lparr>SFMC = ''@The@PlanName'', AJO = ''{% let PlanLegalName = profile.plan %}''\<rparr>]) ''the''
     = Some ''PlanLegalName'' \<and>
   fst (extract_var_expressions_v3
      [\<lparr>SFMC = ''@The@PlanName'', AJO = ''{% let PlanLegalName = profile.plan %}''\<rparr>]) ''planname''
     = Some ''PlanLegalName''"
  by code_simp

section \<open>Properties of the Block Converter\<close>

text \<open>
  Claim C1 says that the article rule replaces only the adjacent pair of prints and
  keeps the rest of the then-branch. On a then-branch \<^verbatim>\<open>Hi \<close>, pair, \<^verbatim>\<open>!\<close> the converter
  emits the article construct in place of the whole branch: \<^verbatim>\<open>Hi \<close> and \<^verbatim>\<open>!\<close> are gone.
\<close>
theorem the_plan_replaces_whole_then_branch:
  "convert_ampscript_if_blocks
     ''%%[IF @x THEN]%%Hi %%=v(@the)=%%%%=v(@planName)=%%!%%[ENDIF]%%'' [] Map.empty {} =
   (''{% if x %}{% if PlanLegalName startsWith '' @ [squote] @ ''THE'' @ [squote] @
    '' %}{{ PlanLegalName }}{% else %}the {{ PlanLegalName }}{%/if%}{%/if%}'', [''x''], {})"
  by code_simp






lemma repl_covered: 
  "snd (snd (repl h warnings var_expr cov)) =
   snd (snd (translate_condition_to_liquid (strip (grp h 1)) warnings var_expr cov))"
  by (simp add: repl_def Let_def split: prod.splits)

lemma sub_blocks_covered_mono:
  "cov \<subseteq> snd (snd (sub_blocks segs warnings var_expr cov))"
proof (induction segs warnings var_expr cov rule: sub_blocks.induct)
  case (3 h gs warnings var_expr cov)
  obtain out1 w1 c1 where r: "repl h warnings var_expr cov = (out1, w1, c1)"
    by (cases "repl h warnings var_expr cov")
  have "cov \<subseteq> snd (snd (repl h warnings var_expr cov))"
    unfolding repl_covered by (rule translate_covered_mono)
  with r have "cov \<subseteq> c1" by simp
  with 3 [OF r [symmetric] refl] r show ?case by (auto split: prod.splits)
qed (auto split: prod.splits)

lemma learn_vars_covered_mono:
  "snd acc \<subseteq> snd (learn_vars expr single_var ajo vars acc)"
  by (induction expr single_var ajo vars acc rule: learn_vars.induct) (auto simp: Let_def)


text \<open>
  Claim C8. The covered set only grows. Whatever the condition, the warning list, the
  variable mapping and the covered set, the covered set a call of the Condition
  Translator leaves contains the one it was given; the same holds for the Block
  Converter, which calls the translator once per matched block, and for a row of the
  inference. These are the only places where the scripts write to the covered set.
\<close>
theorem covered_set_only_grows:
  "covered_vars \<subseteq> snd (snd (translate_condition_to_liquid cond warnings var_expr covered_vars)) \<and>
   covered_vars \<subseteq> snd (snd (convert_ampscript_if_blocks html_text warnings var_expr covered_vars)) \<and>
   covered_vars \<subseteq> snd (extract_row (var_expr, covered_vars) row)"
  using translate_covered_mono sub_blocks_covered_mono learn_vars_covered_mono [of "(var_expr, covered_vars)"]
  by (auto simp: convert_ampscript_if_blocks_def extract_row_def Let_def)


section \<open>Properties of the Literal Substitution Pass\<close>




section \<open>Properties of the Print Substitution Pass\<close>

lemma lower_c_cases: "lower_c c = c \<or> is_alpha (lower_c c)"
  by (cases c) (auto simp: letter_bits_def sign_bits_def)




section \<open>Properties of the Safe Commenting pass\<close>












text \<open>
  Phase B scans the text Phase A returns and finds the token again inside Phase A's
  comment: the final document nests two comments and the fragment is logged twice.
\<close>
lemma attr_token_commented_twice:
  "comment_ampscript_with_hoist (''<img src='' @ [dquote] @ ''%%=v(@x)=%%'' @ [dquote] @ ''>'') =
     (''<img src='' @ [dquote, dquote] @ '' <!-- <!-- %%=v(@x)=%% --> -->>'',
      [(1, ''%%=v(@x)=%%''), (1, ''%%=v(@x)=%%'')])"
  by code_simp


lemma lower_c_non_alpha: "lower_c c = d \<Longrightarrow> \<not> is_alpha d \<Longrightarrow> c = d"
  using lower_c_cases [of c] by auto

lemma is_space_lower_c: "is_space c \<Longrightarrow> lower_c c = c"
  by (cases c) auto

lemma strip_nonempty: "\<not> is_space c \<Longrightarrow> strip (c # xs) \<noteq> []"
  by (auto simp: strip_def dropWhile_eq_Nil_conv)

lemma ms_lit_i_first:
  assumes "m \<in> set (ms (seqs (lit_i (d # w) # rs)) s)"
  shows "\<exists>c cs. rest s = c # cs \<and> lower_c c = lower_c d"
proof -
  from assms obtain t where "t \<in> set (ms (lit_i (d # w)) s)"
    unfolding in_ms_seqs_Cons by blast
  from in_ms_lit_i [OF this] obtain u where "rest s = u @ rest t" "lower u = lower (d # w)" by blast
  then show ?thesis by (cases u) (auto simp: lower_def)
qed

lemma hoist_let_first:
  assumes "m \<in> set (ms hoist_let_re s)"
  shows "\<exists>cs. rest s = CHR ''{'' # cs"
proof -
  from ms_lit_i_first [OF assms [unfolded hoist_let_re_def]] obtain c cs where
    c: "rest s = c # cs" "lower_c c = lower_c CHR ''{''" by blast
  have "lower_c CHR ''{'' = CHR ''{''" "\<not> is_alpha CHR ''{''" by (simp_all add: letter_bits_def)
  with c lower_c_non_alpha [of c "CHR ''{''"] show ?thesis by simp
qed

lemma scan_skip_first:
  assumes "ms r (start_state p (c # cs)) = []"
  shows "scan r pos p (c # cs) = Skip c # scan r (Suc pos) (Some c) cs"
  using assms by (subst scan.simps) simp

lemma hoist_let_no_match: "c \<noteq> CHR ''{'' \<Longrightarrow> ms hoist_let_re (start_state p (c # cs)) = []"
proof (rule ccontr)
  assume c: "c \<noteq> CHR ''{''" and "ms hoist_let_re (start_state p (c # cs)) \<noteq> []"
  then obtain m where "m \<in> set (ms hoist_let_re (start_state p (c # cs)))"
    by (cases "ms hoist_let_re (start_state p (c # cs))") auto
  from hoist_let_first [OF this] c show False by (simp add: start_state_def)
qed

lemma cleaned_first:
  assumes "c \<noteq> CHR ''{''"
  shows "\<exists>xs. re_sub hoist_let_re f (c # cs) = c # xs"
  using scan_skip_first [OF hoist_let_no_match [OF assms]]
  by (simp add: re_sub_def finditer_def)



lemma hoist_let_shape:
  assumes "m \<in> set (ms hoist_let_re s)"
  shows "\<exists>a sp1 b sp2 body c. rest s = (a @ sp1 @ b @ sp2 @ body @ c) @ rest m \<and>
    lower a = ''{%'' \<and> (\<forall>x\<in>set sp1. is_space x) \<and> lower b = ''let'' \<and> sp2 \<noteq> [] \<and>
    (\<forall>x\<in>set sp2. is_space x) \<and> body \<noteq> [] \<and> CHR ''%'' \<notin> set body \<and> lower c = ''%}''"
proof -
  from assms obtain t1 t2 t3 t4 t5 where
    t1: "t1 \<in> set (ms (lit_i ''{%'') s)" and t2: "t2 \<in> set (ms (star is_space) t1)" and
    t3: "t3 \<in> set (ms (lit_i ''let'') t2)" and t4: "t4 \<in> set (ms (plus is_space) t3)" and
    t5: "t5 \<in> set (ms (plus (none_of ''%'')) t4)" and t6: "m \<in> set (ms (lit_i ''%}'') t5)"
    unfolding hoist_let_re_def in_ms_seqs_Cons ms_seqs_Nil by auto
  have l: "lower ''{%'' = ''{%''" "lower ''let'' = ''let''" "lower ''%}'' = ''%}''" by code_simp+
  from in_ms_lit_i [OF t1] obtain a where a: "rest s = a @ rest t1" "lower a = lower ''{%''" by blast
  from in_ms_Many [OF t2 [unfolded star_def]] obtain sp1 where
    sp1: "rest t1 = sp1 @ rest t2" "\<forall>x\<in>set sp1. is_space x" by blast
  from in_ms_lit_i [OF t3] obtain b where b: "rest t2 = b @ rest t3" "lower b = lower ''let''" by blast
  from in_ms_plus [OF t4] obtain sp2 where
    sp2: "rest t3 = sp2 @ rest t4" "sp2 \<noteq> []" "\<forall>x\<in>set sp2. is_space x" by blast
  from in_ms_plus [OF t5] obtain body where
    body: "rest t4 = body @ rest t5" "body \<noteq> []" "\<forall>x\<in>set body. none_of ''%'' x" by blast
  from in_ms_lit_i [OF t6] obtain c where c: "rest t5 = c @ rest m" "lower c = lower ''%}''" by blast
  show ?thesis
    apply (rule exI [of _ a], rule exI [of _ sp1], rule exI [of _ b], rule exI [of _ sp2],
        rule exI [of _ body], rule exI [of _ c])
    using a sp1 b sp2 body c l by (auto simp: none_of_def)
qed

lemma hoist_let_hit:
  assumes "l \<in> set (findall0 hoist_let_re full)"
  shows "is_binding l"
proof -
  from assms obtain h where h: "h \<in> set (hits (finditer hoist_let_re full))" "l = h_whole h"
    by (auto simp: findall0_def)
  from h(1) obtain pre m p' where
    "full = pre @ h_whole h @ rest m" and
    m: "m \<in> set (ms hoist_let_re (start_state p' (h_whole h @ rest m)))"
    by (rule finditer_hit)
  from hoist_let_shape [OF m] h(2) show ?thesis
    unfolding is_binding_def start_state_def by (simp del: append_assoc)
qed






subsection \<open>Hoisting in the earlier script\<close>

text \<open>
  The earlier script hoists out of every match of the block pattern, print tokens
  included. For the bindings its pattern finds the same holds as in the later script,
  and a binding whose body holds a percent sign stays inside the comment there too.
\<close>
lemma seqs_lit_i_consumes:
  assumes "m \<in> set (ms (seqs (lit_i (d # w) # rs)) s)"
  shows "\<exists>c v. rest s = c # v @ rest m \<and> lower_c c = lower_c d"
proof -
  from assms obtain t where t: "t \<in> set (ms (lit_i (d # w)) s)" "m \<in> set (ms (seqs rs) t)"
    unfolding in_ms_seqs_Cons by blast
  from in_ms_lit_i [OF t(1)] obtain u where u: "rest s = u @ rest t" "lower u = lower (d # w)"
    by blast
  from ms_suffix [OF t(2)] obtain w' where w': "rest t = w' @ rest m" by blast
  from u(2) obtain c u' where c: "u = c # u'" "lower_c c = lower_c d"
    by (cases u) (auto simp: lower_def)
  show ?thesis
    by (rule exI [of _ c], rule exI [of _ "u' @ w'"]) (use u(1) w' c in simp)
qed

lemma block_first:
  assumes "m \<in> set (ms block_re s)"
  shows "\<exists>c v. rest s = c # v @ rest m \<and> (c = CHR ''%'' \<or> c = CHR ''<'')"
proof -
  let ?A = "seqs [lit_i ''%%='', plus_lazy any_char, lit_i ''=%%'']"
  let ?B = "seqs [lit_i ''%%['', star_lazy space_or_not, lit_i '']%%'']"
  let ?C = "seqs [lit_i ''<script'', star (none_of ''>''), Wordb, lit_i ''runat='',
                 Ch (one_of quotes), lit_i ''server'', Ch (one_of quotes), star (none_of ''>''),
                 lit_i ''>'', star_lazy space_or_not, lit_i ''</script>'']"
  have ng: "nogrp (Alt ?A (Alt ?B ?C))"
    by (simp add: seqs_def lit_i_def plus_lazy_def star_lazy_def star_def)
  from in_ms_Grp [OF ng assms [unfolded block_re_def]] obtain t where
    t: "t \<in> set (ms (Alt ?A (Alt ?B ?C)) s)" "rest t = rest m" by blast
  then consider "t \<in> set (ms ?A s)" | "t \<in> set (ms ?B s)" | "t \<in> set (ms ?C s)"
    by (auto simp: ms.simps(4))
  then obtain c v d where c: "rest s = c # v @ rest t" "lower_c c = lower_c d"
    "d = CHR ''%'' \<or> d = CHR ''<''"
    by cases (drule seqs_lit_i_consumes, blast)+
  have "lower_c CHR ''%'' = CHR ''%''" "lower_c CHR ''<'' = CHR ''<''"
    "\<not> is_alpha CHR ''%''" "\<not> is_alpha CHR ''<''" by (simp_all add: letter_bits_def)
  with c lower_c_non_alpha [of c d] have "c = d" by auto
  with c t(2) show ?thesis by auto
qed

lemma v3_hoist_parts_eq: "block_re_v3 = block_re" "hoist_let_re_v3 = hoist_let_re"
  by (simp_all add: block_re_v3_def block_re_def hoist_let_re_v3_def hoist_let_re_def)

lemma block_piece_v3_hoists:
  assumes "h \<in> set (hits (finditer block_re_v3 text))"
  shows "block_piece_v3 line_no (h_whole h) =
     (concat (findall0 hoist_let_re_v3 (h_whole h)) @
        ''<!-- '' @ re_sub hoist_let_re_v3 (\<lambda>m. []) (h_whole h) @ '' -->'',
      [(line_no, strip (re_sub hoist_let_re_v3 (\<lambda>m. []) (h_whole h)))]) \<and>
    (\<forall>l \<in> set (findall0 hoist_let_re_v3 (h_whole h)). is_binding l)"
proof -
  from assms obtain pre m p' where
    "text = pre @ h_whole h @ rest m" and
    m: "m \<in> set (ms block_re (start_state p' (h_whole h @ rest m)))"
    unfolding v3_hoist_parts_eq by (rule finditer_hit)
  from block_first [OF m] obtain c v where
    c: "h_whole h = c # v" "c = CHR ''%'' \<or> c = CHR ''<''"
    by (auto simp: start_state_def)
  then have "c \<noteq> CHR ''{''" "\<not> is_space c" by auto
  from cleaned_first [OF this(1), of "\<lambda>m. []" v] obtain xs where
    "re_sub hoist_let_re (\<lambda>m. []) (h_whole h) = c # xs" using c(1) by auto
  with \<open>\<not> is_space c\<close> have "strip (re_sub hoist_let_re (\<lambda>m. []) (h_whole h)) \<noteq> []"
    by (simp add: strip_nonempty)
  then show ?thesis
    by (simp add: block_piece_v3_def Let_def v3_hoist_parts_eq hoist_let_hit)
qed

lemma v3_binding_with_percent_kept_in_comment:
  "comment_ampscript_with_hoist_v3 doc6 =
     (''a<!-- %%[ {% let pct = '' @ [dquote] @ ''50%'' @ [dquote] @ '' %} ]%% -->b'',
      [(1, ''%%[ {% let pct = '' @ [dquote] @ ''50%'' @ [dquote] @ '' %} ]%%'')])"
  by code_simp

lemma v3_hoist_example:
  "comment_ampscript_with_hoist_v3 doc6_ok =
     (''a{% let x = 1 %}<!-- %%[ SET @a = 1  ]%% -->b'', [(1, ''%%[ SET @a = 1  ]%%'')])"
  by code_simp

subsection \<open>An IF opener without ENDIF\<close>







end
